(* ===== verification/Prelude.thy ===== *)
theory Prelude
  imports Main "HOL-Library.Word" "HOL-Library.List_Lexorder"
begin

text \<open>
  What every component of the model shares: machine integers and byte strings, the outcome of
  a Rust call (a value, an error or a panic), state passing over such outcomes, Rust's unsigned
  addition with and without overflow checks, big-endian integers, and the interface of the
  third-party byte buffers (crates \<^verbatim>\<open>bytes\<close> and \<^verbatim>\<open>byteorder\<close>), which is a parameter of the model:
  the record \<open>platform\<close> carries its operations and the locale \<open>bytes_crate\<close> states what their
  documentation promises.
\<close>

unbundle bit_operations_syntax

named_theorems outcome_simps \<open>evaluation of outcomes and of state passing\<close>
named_theorems wire_simps \<open>evaluation of the byte level\<close>

subsection \<open>Integers and byte strings\<close>

type_synonym u8 = "8 word"
type_synonym u16 = "16 word"
type_synonym u32 = "32 word"
type_synonym bytes = "u8 list"

text \<open>Rust's \<open>String\<close> and \<open>str\<close> are byte strings that are valid UTF-8 (theory \<open>Text\<close>).\<close>

type_synonym rstring = bytes

text \<open>A string literal of the source, as the bytes Rust stores for it (ASCII only).\<close>

definition lit :: "string \<Rightarrow> rstring" where
  "lit s = map of_char s"

subsection \<open>Outcomes\<close>

text \<open>
  \<open>Ok\<close> and \<open>Err\<close> are the two constructors of Rust's \<open>Result\<close>; \<open>Panic\<close> is a call that does not
  return because the thread of execution unwinds.
\<close>

datatype ('a, 'e) outcome = Ok 'a | Err 'e | Panic

fun bind_o :: "('a, 'e) outcome \<Rightarrow> ('a \<Rightarrow> ('b, 'e) outcome) \<Rightarrow> ('b, 'e) outcome" where
  "bind_o (Ok a) f = f a"
| "bind_o (Err e) f = Err e"
| "bind_o Panic f = Panic"

fun map_err :: "('e \<Rightarrow> 'f) \<Rightarrow> ('a, 'e) outcome \<Rightarrow> ('a, 'f) outcome" where
  "map_err f (Ok a) = Ok a"
| "map_err f (Err e) = Err (f e)"
| "map_err f Panic = Panic"

text \<open>\<open>Result::unwrap\<close>: an error becomes a panic.\<close>

fun unwrap :: "('a, 'e) outcome \<Rightarrow> ('a, 'f) outcome" where
  "unwrap (Ok a) = Ok a"
| "unwrap (Err e) = Panic"
| "unwrap Panic = Panic"

definition is_ok :: "('a, 'e) outcome \<Rightarrow> bool" where
  "is_ok r = (case r of Ok _ \<Rightarrow> True | _ \<Rightarrow> False)"

text \<open>\<open>assert!\<close> and its variants.\<close>

definition assert_o :: "bool \<Rightarrow> (unit, 'e) outcome" where
  "assert_o b = (if b then Ok () else Panic)"

lemma assert_o_simps [simp]: "assert_o True = Ok ()" "assert_o False = Panic"
  by (simp_all add: assert_o_def)

text \<open>Calls that also change a state (a buffer): the state is threaded, and kept on an error.\<close>

type_synonym ('s, 'a, 'e) call = "'s \<Rightarrow> ('a, 'e) outcome \<times> 's"

definition sret :: "'a \<Rightarrow> ('s, 'a, 'e) call" where
  "sret a s = (Ok a, s)"

definition serr :: "'e \<Rightarrow> ('s, 'a, 'e) call" where
  "serr e s = (Err e, s)"

definition slift :: "('a, 'e) outcome \<Rightarrow> ('s, 'a, 'e) call" where
  "slift r s = (r, s)"

definition sbind :: "('s, 'a, 'e) call \<Rightarrow> ('a \<Rightarrow> ('s, 'b, 'e) call) \<Rightarrow> ('s, 'b, 'e) call" where
  "sbind m f s = (case m s of
      (Ok a, s') \<Rightarrow> f a s'
    | (Err e, s') \<Rightarrow> (Err e, s')
    | (Panic, s') \<Rightarrow> (Panic, s'))"

definition smodify :: "('s \<Rightarrow> 's) \<Rightarrow> ('s, unit, 'e) call" where
  "smodify f s = (Ok (), f s)"

text \<open>A third-party operation that panics (documented) where it is not defined.\<close>

definition spanic :: "('s \<Rightarrow> ('a \<times> 's) option) \<Rightarrow> ('s, 'a, 'e) call" where
  "spanic f s = (case f s of Some (a, s') \<Rightarrow> (Ok a, s') | None \<Rightarrow> (Panic, s))"

lemma sbind_cases [outcome_simps]:
  "m s = (Ok a, s') \<Longrightarrow> sbind m f s = f a s'"
  "m s = (Err e, s') \<Longrightarrow> sbind m f s = (Err e, s')"
  "m s = (Panic, s') \<Longrightarrow> sbind m f s = (Panic, s')"
  by (simp_all add: sbind_def)

lemma sbind_basic [outcome_simps]:
  "sbind (sret a) f s = f a s"
  "sbind (serr e) f s = (Err e, s)"
  "sbind (slift (Ok a)) f s = f a s"
  "sbind (slift (Err e)) f s = (Err e, s)"
  "sbind (slift Panic) f s = (Panic, s)"
  "sbind (smodify g) h s = h () (g s)"
  by (simp_all add: sbind_def sret_def serr_def slift_def smodify_def)

lemma sbind_spanic [outcome_simps]:
  "g s = Some (a, s') \<Longrightarrow> sbind (spanic g) f s = f a s'"
  "g s = None \<Longrightarrow> sbind (spanic g) f s = (Panic, s)"
  by (simp_all add: sbind_def spanic_def)

lemma call_basic [outcome_simps]:
  "sret a s = (Ok a, s)"
  "serr e s = (Err e, s)"
  "slift r s = (r, s)"
  "smodify g s = (Ok (), g s)"
  by (simp_all add: sret_def serr_def slift_def smodify_def)

lemma sbind_Ok_iff:
  "sbind m f s = (Ok b, t) \<longleftrightarrow> (\<exists>a s'. m s = (Ok a, s') \<and> f a s' = (Ok b, t))"
  by (auto simp: sbind_def split: prod.splits outcome.splits)

lemma spanic_Ok_iff: "spanic g s = (Ok a, t) \<longleftrightarrow> g s = Some (a, t)"
  by (auto simp: spanic_def split: option.splits)

lemma bind_o_Ok_iff: "bind_o r f = Ok b \<longleftrightarrow> (\<exists>a. r = Ok a \<and> f a = Ok b)"
  by (cases r) auto

lemma unwrap_Ok_iff [simp]: "unwrap r = Ok a \<longleftrightarrow> r = Ok a"
  by (cases r) auto

lemma unwrap_not_Err [simp]: "unwrap r \<noteq> Err e"
  by (cases r) auto

lemma map_err_Ok_iff [simp]: "map_err f r = Ok a \<longleftrightarrow> r = Ok a"
  by (cases r) auto

lemma is_ok_simps [simp]: "is_ok (Ok a)" "\<not> is_ok (Err e)" "\<not> is_ok Panic"
  by (simp_all add: is_ok_def)

subsection \<open>Unsigned 16-bit arithmetic\<close>

text \<open>
  \<open>a + b\<close> on \<open>u16\<close>: with overflow checks (the default of a debug build) an overflow panics,
  without them (the default of a release build) it wraps.
\<close>

definition add_u16 :: "bool \<Rightarrow> u16 \<Rightarrow> u16 \<Rightarrow> (u16, 'e) outcome" where
  "add_u16 checks a b = (if checks \<and> 65536 \<le> unat a + unat b then Panic else Ok (a + b))"

definition u16_of :: "nat \<Rightarrow> u16" where
  "u16_of n = of_nat n"

text \<open>\<open>u16::try_from(n)\<close> for an unsigned \<open>n\<close> of any width.\<close>

definition u16_try_from :: "nat \<Rightarrow> (u16, unit) outcome" where
  "u16_try_from n = (if n < 65536 then Ok (u16_of n) else Err ())"

lemma unat_u16_of [simp]: "n < 65536 \<Longrightarrow> unat (u16_of n) = n"
  by (simp add: u16_of_def unat_of_nat)

lemma u16_of_unat [simp]: "u16_of (unat w) = w"
  by (simp add: u16_of_def)

lemma add_u16_fits:
  assumes "unat a + unat b < 65536"
  shows "add_u16 c a b = Ok (a + b)" and "unat (a + b) = unat a + unat b"
  using assms by (auto simp: add_u16_def unat_word_ariths)

lemma u16_try_from_Ok_iff: "u16_try_from n = Ok w \<longleftrightarrow> n < 65536 \<and> unat w = n"
  by (auto simp: u16_try_from_def)

subsection \<open>Big-endian integers\<close>

definition be16 :: "u8 \<Rightarrow> u8 \<Rightarrow> u16" where
  "be16 a b = (push_bit 8 (ucast a) OR ucast b)"

definition be16_bytes :: "u16 \<Rightarrow> bytes" where
  "be16_bytes w = [ucast (drop_bit 8 w), ucast w]"

definition be32 :: "u8 \<Rightarrow> u8 \<Rightarrow> u8 \<Rightarrow> u8 \<Rightarrow> u32" where
  "be32 a b c d =
     (push_bit 24 (ucast a) OR push_bit 16 (ucast b) OR push_bit 8 (ucast c) OR ucast d)"

definition be32_bytes :: "u32 \<Rightarrow> bytes" where
  "be32_bytes w = [ucast (drop_bit 24 w), ucast (drop_bit 16 w), ucast (drop_bit 8 w), ucast w]"

lemma length_be_bytes [simp]: "length (be16_bytes w) = 2" "length (be32_bytes v) = 4"
  by (simp_all add: be16_bytes_def be32_bytes_def)

lemma be16_be16_bytes [simp]: "be16 (ucast (drop_bit 8 w)) (ucast w) = w"
  unfolding be16_def
  by (rule bit_word_eqI) (auto simp: bit_simps)

lemma be32_be32_bytes [simp]:
  "be32 (ucast (drop_bit 24 w)) (ucast (drop_bit 16 w)) (ucast (drop_bit 8 w)) (ucast w) = w"
proof (rule bit_word_eqI)
  fix n
  assume n: "n < LENGTH(32)"
  then consider "n < 8" | "8 \<le> n" "n < 16" | "16 \<le> n" "n < 24" | "24 \<le> n" "n < 32"
    by fastforce
  then show "bit (be32 (ucast (drop_bit 24 w)) (ucast (drop_bit 16 w)) (ucast (drop_bit 8 w))
    (ucast w)) n = bit w n"
    by cases (auto simp: be32_def bit_simps)
qed

lemma be16_bytes_be16 [simp]: "be16_bytes (be16 a b) = [a, b]"
proof -
  have high: "\<not> bit b (8 + n)" for n
    using bit_imp_le_length [of b "8 + n"] by auto
  show ?thesis
    unfolding be16_bytes_def be16_def
    by (auto intro!: bit_word_eqI simp: bit_simps high)
qed

lemma be32_bytes_be32 [simp]: "be32_bytes (be32 a b c d) = [a, b, c, d]"
proof -
  have high: "\<not> bit x (8 + n)" for x :: u8 and n
    using bit_imp_le_length [of x "8 + n"] by auto
  have high16: "\<not> bit x (16 + n)" and high24: "\<not> bit x (24 + n)" for x :: u8 and n
    using high [of x "8 + n"] high [of x "16 + n"] by simp_all
  show ?thesis
    unfolding be32_bytes_def be32_def
    by (auto intro!: bit_word_eqI simp: bit_simps high high16 high24)
qed

lemma be_bytes_inject [simp]:
  "be16_bytes v = be16_bytes w \<longleftrightarrow> v = w"
  "be32_bytes x = be32_bytes y \<longleftrightarrow> x = y"
  unfolding be16_bytes_def be32_bytes_def
  by (metis be16_be16_bytes list.inject) (metis be32_be32_bytes list.inject)

lemma be_bytes_append_inject [simp]:
  "be16_bytes v @ s = be16_bytes w @ t \<longleftrightarrow> v = w \<and> s = t"
  "be32_bytes x @ s = be32_bytes y @ t \<longleftrightarrow> x = y \<and> s = t"
  by (simp_all add: append_eq_append_conv)

subsection \<open>Byte buffers\<close>

text \<open>
  A \<open>BytesMut\<close> is the byte string it holds (it dereferences to that slice). What its methods do
  is code of the crates \<^verbatim>\<open>bytes\<close> (\<open>Buf\<close>, \<open>BufMut\<close>, \<open>split_to\<close>) and \<^verbatim>\<open>byteorder\<close> (\<open>read_u16\<close>), so the
  methods are fields of the record that every codec takes as an argument; \<open>None\<close> is the panic
  (for \<open>read_u16\<close>, the error) their documentation announces. The record also carries the two
  choices of the compiler and of its library that the source leaves open: whether arithmetic is
  checked for overflow, and which code points above ASCII are alphanumeric.
\<close>

record platform =
  get_u8 :: "bytes \<Rightarrow> (u8 \<times> bytes) option"
  get_u16 :: "bytes \<Rightarrow> (u16 \<times> bytes) option"
  get_u32 :: "bytes \<Rightarrow> (u32 \<times> bytes) option"
  advance :: "nat \<Rightarrow> bytes \<Rightarrow> (unit \<times> bytes) option"
  split_to :: "nat \<Rightarrow> bytes \<Rightarrow> (bytes \<times> bytes) option"
  put_u8 :: "u8 \<Rightarrow> bytes \<Rightarrow> bytes"
  put_u16 :: "u16 \<Rightarrow> bytes \<Rightarrow> bytes"
  put_u32 :: "u32 \<Rightarrow> bytes \<Rightarrow> bytes"
  put :: "bytes \<Rightarrow> bytes \<Rightarrow> bytes"
  read_u16_be :: "bytes \<Rightarrow> u16 option"
  overflow_checks :: bool
  unicode_alphanumeric :: "nat \<Rightarrow> bool"

locale bytes_crate =
  fixes P :: platform
  assumes get_u8_Nil: "get_u8 P [] = None"
    and get_u8_Cons: "get_u8 P (a # s) = Some (a, s)"
    and get_u16_short: "length s < 2 \<Longrightarrow> get_u16 P s = None"
    and get_u16_Cons: "get_u16 P (a # b # s) = Some (be16 a b, s)"
    and get_u32_short: "length s < 4 \<Longrightarrow> get_u32 P s = None"
    and get_u32_Cons: "get_u32 P (a # b # c # d # s) = Some (be32 a b c d, s)"
    and advance_long: "n \<le> length s \<Longrightarrow> advance P n s = Some ((), drop n s)"
    and advance_short: "length s < n \<Longrightarrow> advance P n s = None"
    and split_to_long: "n \<le> length s \<Longrightarrow> split_to P n s = Some (take n s, drop n s)"
    and split_to_short: "length s < n \<Longrightarrow> split_to P n s = None"
    and put_u8_app: "put_u8 P a s = s @ [a]"
    and put_u16_app: "put_u16 P w s = s @ be16_bytes w"
    and put_u32_app: "put_u32 P v s = s @ be32_bytes v"
    and put_app: "put P t s = s @ t"
    and read_u16_be_short: "length s < 2 \<Longrightarrow> read_u16_be P s = None"
    and read_u16_be_Cons: "read_u16_be P (a # b # s) = Some (be16 a b)"
begin

lemmas buffer_laws [wire_simps] =
  get_u8_Nil get_u8_Cons get_u16_short get_u16_Cons get_u32_short get_u32_Cons
  advance_long advance_short split_to_long split_to_short
  put_u8_app put_u16_app put_u32_app put_app read_u16_be_short read_u16_be_Cons

lemma get_u16_bytes [wire_simps]: "get_u16 P (be16_bytes w @ s) = Some (w, s)"
  by (simp add: be16_bytes_def get_u16_Cons)

lemma get_u32_bytes [wire_simps]: "get_u32 P (be32_bytes w @ s) = Some (w, s)"
  by (simp add: be32_bytes_def get_u32_Cons)

lemma split_to_append [wire_simps]: "length t = n \<Longrightarrow> split_to P n (t @ s) = Some (t, s)"
  by (simp add: split_to_long)

lemma get_u8_Some_iff: "get_u8 P s = Some (a, t) \<longleftrightarrow> s = a # t"
  by (cases s) (auto simp: get_u8_Nil get_u8_Cons)

lemma get_u16_Some_iff: "get_u16 P s = Some (w, t) \<longleftrightarrow> s = be16_bytes w @ t"
proof (cases "length s < 2")
  case True
  then show ?thesis by (auto simp: get_u16_short)
next
  case False
  then obtain a b r where s: "s = a # b # r"
    by (cases s; cases "tl s") auto
  show ?thesis
    using be16_bytes_be16 [of a b] by (auto simp: s get_u16_Cons be16_bytes_def)
qed

lemma get_u32_Some_iff: "get_u32 P s = Some (w, t) \<longleftrightarrow> s = be32_bytes w @ t"
proof (cases "length s < 4")
  case True
  then show ?thesis by (auto simp: get_u32_short)
next
  case False
  then obtain a b c d r where s: "s = a # b # c # d # r"
    by (auto simp: not_less numeral_eq_Suc Suc_le_length_iff)
  show ?thesis
    using be32_bytes_be32 [of a b c d] by (auto simp: s get_u32_Cons be32_bytes_def)
qed

lemma split_to_Some_iff: "split_to P n s = Some (t, r) \<longleftrightarrow> s = t @ r \<and> length t = n"
proof (cases "n \<le> length s")
  case True
  then show ?thesis by (auto simp: split_to_long)
next
  case False
  then show ?thesis by (auto simp: split_to_short)
qed

end

text \<open>
  The reading of the documentation by lists: it satisfies every law, so the laws are consistent
  and what rests on them can be evaluated.
\<close>

fun list_get_u16 :: "bytes \<Rightarrow> (u16 \<times> bytes) option" where
  "list_get_u16 (a # b # s) = Some (be16 a b, s)"
| "list_get_u16 _ = None"

fun list_get_u32 :: "bytes \<Rightarrow> (u32 \<times> bytes) option" where
  "list_get_u32 (a # b # c # d # s) = Some (be32 a b c d, s)"
| "list_get_u32 _ = None"

definition list_platform :: "bool \<Rightarrow> (nat \<Rightarrow> bool) \<Rightarrow> platform" where
  "list_platform checks alnum = \<lparr>
     get_u8 = (\<lambda>s. case s of [] \<Rightarrow> None | a # t \<Rightarrow> Some (a, t)),
     get_u16 = list_get_u16,
     get_u32 = list_get_u32,
     advance = (\<lambda>n s. if n \<le> length s then Some ((), drop n s) else None),
     split_to = (\<lambda>n s. if n \<le> length s then Some (take n s, drop n s) else None),
     put_u8 = (\<lambda>a s. s @ [a]),
     put_u16 = (\<lambda>w s. s @ be16_bytes w),
     put_u32 = (\<lambda>w s. s @ be32_bytes w),
     put = (\<lambda>t s. s @ t),
     read_u16_be = (\<lambda>s. map_option fst (list_get_u16 s)),
     overflow_checks = checks,
     unicode_alphanumeric = alnum \<rparr>"

lemma list_get_short:
  "length s < 2 \<Longrightarrow> list_get_u16 s = None"
  "length s < 4 \<Longrightarrow> list_get_u32 s = None"
  by (cases s rule: list_get_u16.cases; simp) (cases s rule: list_get_u32.cases; simp)

interpretation list_buffers: bytes_crate "list_platform checks alnum"
  by unfold_locales (simp_all add: list_platform_def list_get_short)

subsection \<open>Slices\<close>

text \<open>\<open>s.get(i..j)\<close> on a slice.\<close>

definition slice_get :: "nat \<Rightarrow> nat \<Rightarrow> 'a list \<Rightarrow> 'a list option" where
  "slice_get i j s = (if i \<le> j \<and> j \<le> length s then Some (take (j - i) (drop i s)) else None)"

end
