(* ===== verification/Text.thy ===== *)
theory Text
  imports Prelude
begin

text \<open>
  The part of Rust's strings that the program uses: a \<open>String\<close> is its bytes, which are valid
  UTF-8. \<open>from_utf8\<close> is the validating constructor, \<open>chars\<close> the code points, \<open>is_alphanumeric\<close>
  the character test, and \<open>dec_digits\<close>, \<open>hex_digits\<close> and \<open>hex_byte\<close> what the formatting macros
  write for unsigned integers. The lemmas show that the decoder and the encoder of code points
  are inverse to each other, so validity is exactly "is the encoding of scalar values".
\<close>

subsection \<open>UTF-8\<close>

definition cont :: "u8 \<Rightarrow> bool" where
  "cont b = (0x80 \<le> unat b \<and> unat b < 0xC0)"

text \<open>The allowed second bytes exclude overlong forms, surrogates and values above 0x10FFFF.\<close>

definition second3 :: "nat \<Rightarrow> u8 \<Rightarrow> bool" where
  "second3 n b = (cont b \<and> (n = 0xE0 \<longrightarrow> 0xA0 \<le> unat b) \<and> (n = 0xED \<longrightarrow> unat b < 0xA0))"

definition second4 :: "nat \<Rightarrow> u8 \<Rightarrow> bool" where
  "second4 n b = (cont b \<and> (n = 0xF0 \<longrightarrow> 0x90 \<le> unat b) \<and> (n = 0xF4 \<longrightarrow> unat b < 0x90))"

definition low6 :: "u8 \<Rightarrow> nat" where
  "low6 b = unat b - 0x80"

fun utf8_next :: "bytes \<Rightarrow> (nat \<times> bytes) option" where
  "utf8_next [] = None"
| "utf8_next (b # s) = (let n = unat b in
     if n < 0x80 then Some (n, s)
     else if n < 0xC2 then None
     else if n < 0xE0 then
       (case s of b1 # r \<Rightarrow> if cont b1 then Some ((n - 0xC0) * 64 + low6 b1, r) else None
        | _ \<Rightarrow> None)
     else if n < 0xF0 then
       (case s of b1 # b2 # r \<Rightarrow>
          if second3 n b1 \<and> cont b2
          then Some ((n - 0xE0) * 4096 + low6 b1 * 64 + low6 b2, r) else None
        | _ \<Rightarrow> None)
     else if n < 0xF5 then
       (case s of b1 # b2 # b3 # r \<Rightarrow>
          if second4 n b1 \<and> cont b2 \<and> cont b3
          then Some ((n - 0xF0) * 262144 + low6 b1 * 4096 + low6 b2 * 64 + low6 b3, r) else None
        | _ \<Rightarrow> None)
     else None)"

lemma utf8_next_shorter: "utf8_next s = Some (c, r) \<Longrightarrow> length r < length s"
  by (cases s) (auto simp: Let_def split: if_splits list.splits)

function utf8_decode :: "bytes \<Rightarrow> nat list option" where
  "utf8_decode [] = Some []"
| "utf8_decode (b # s) = (case utf8_next (b # s) of
     None \<Rightarrow> None
   | Some (c, r) \<Rightarrow> map_option ((#) c) (utf8_decode r))"
  by pat_completeness auto
termination
  by (relation "measure length") (auto dest: utf8_next_shorter simp del: utf8_next.simps)

definition utf8_valid :: "bytes \<Rightarrow> bool" where
  "utf8_valid s = (utf8_decode s \<noteq> None)"

definition from_utf8 :: "bytes \<Rightarrow> (rstring, unit) outcome" where
  "from_utf8 s = (if utf8_valid s then Ok s else Err ())"

definition chars :: "rstring \<Rightarrow> nat list" where
  "chars s = (case utf8_decode s of Some cs \<Rightarrow> cs | None \<Rightarrow> [])"

definition scalar :: "nat \<Rightarrow> bool" where
  "scalar c = (c < 0xD800 \<or> 0xE000 \<le> c \<and> c < 0x110000)"

definition byte_of :: "nat \<Rightarrow> u8" where
  "byte_of n = of_nat n"

lemma unat_byte_of [simp]: "n < 256 \<Longrightarrow> unat (byte_of n) = n"
  by (simp add: byte_of_def unat_of_nat)

definition utf8_encode :: "nat \<Rightarrow> bytes" where
  "utf8_encode c =
    (if c < 0x80 then [byte_of c]
     else if c < 0x800 then [byte_of (0xC0 + c div 64), byte_of (0x80 + c mod 64)]
     else if c < 0x10000 then
       [byte_of (0xE0 + c div 4096), byte_of (0x80 + c div 64 mod 64), byte_of (0x80 + c mod 64)]
     else [byte_of (0xF0 + c div 262144), byte_of (0x80 + c div 4096 mod 64),
           byte_of (0x80 + c div 64 mod 64), byte_of (0x80 + c mod 64)])"

lemma cont_low6 [simp]:
  "k < 64 \<Longrightarrow> cont (byte_of (0x80 + k))"
  "k < 64 \<Longrightarrow> low6 (byte_of (0x80 + k)) = k"
  by (simp_all add: cont_def low6_def)

lemma split_base64:
  fixes c :: nat
  shows "c div 4096 * 4096 + c div 64 mod 64 * 64 + c mod 64 = c"
    and "c div 262144 * 262144 + c div 4096 mod 64 * 4096 + c div 64 mod 64 * 64 + c mod 64 = c"
proof -
  have q: "c div 4096 = c div 64 div 64" "c div 262144 = c div 4096 div 64"
    by (simp_all add: div_mult2_eq [symmetric])
  have m: "x div 64 * 64 + x mod 64 = x" for x :: nat
    by (rule div_mult_mod_eq)
  show *: "c div 4096 * 4096 + c div 64 mod 64 * 64 + c mod 64 = c"
    using m [of c] m [of "c div 64"] q(1) by linarith
  show "c div 262144 * 262144 + c div 4096 mod 64 * 4096 + c div 64 mod 64 * 64 + c mod 64 = c"
    using * m [of "c div 4096"] q(2) by linarith
qed

text \<open>Decoding the encoding of a code point gives it back, whatever follows.\<close>

lemma utf8_next_encode:
  assumes "scalar c"
  shows "utf8_next (utf8_encode c @ s) = Some (c, s)"
proof -
  consider "c < 0x80" | "0x80 \<le> c" "c < 0x800" | "0x800 \<le> c" "c < 0x10000"
    | "0x10000 \<le> c" "c < 0x110000"
    using assms by (force simp: scalar_def)
  then show ?thesis
  proof cases
    case 1
    then show ?thesis by (simp add: utf8_encode_def)
  next
    case 2
    then show ?thesis by (simp add: utf8_encode_def Let_def less_mult_imp_div_less)
  next
    case 3
    have "c div 4096 < 16" using 3 by linarith
    with 3 assms show ?thesis
      by (auto simp: utf8_encode_def Let_def second3_def scalar_def split_base64)
        (use split_base64(1) [of c] in linarith)
  next
    case 4
    have "c div 262144 < 5" using 4 by linarith
    with 4 show ?thesis
      by (auto simp: utf8_encode_def Let_def second4_def split_base64)
        (use split_base64(2) [of c] in linarith)
  qed
qed

lemma utf8_encode_not_Nil [simp]: "utf8_encode c \<noteq> []"
  by (simp add: utf8_encode_def)

lemma utf8_decode_step:
  "utf8_next s = Some (c, r) \<Longrightarrow> utf8_decode s = map_option ((#) c) (utf8_decode r)"
  by (cases s) auto

lemma utf8_decode_encode: "list_all scalar cs \<Longrightarrow> utf8_decode (concat (map utf8_encode cs)) = Some cs"
  by (induction cs) (simp_all add: utf8_decode_step [OF utf8_next_encode])

text \<open>And a code point that was decoded is a scalar value whose encoding was read.\<close>

lemma byte_of_unat [simp]: "byte_of (unat b) = b"
  by (simp add: byte_of_def)

lemma cont_low6_bound: "cont b \<Longrightarrow> low6 b < 64 \<and> byte_of (0x80 + low6 b) = b"
  by (auto simp: cont_def low6_def)

lemma encode2:
  assumes "0xC2 \<le> unat b" "unat b < 0xE0" "cont b1"
  shows "scalar ((unat b - 0xC0) * 64 + low6 b1)"
    and "utf8_encode ((unat b - 0xC0) * 64 + low6 b1) = [b, b1]"
  using assms cont_low6_bound [OF assms(3)] by (auto simp: scalar_def utf8_encode_def)

lemma div_mod_digit:
  fixes a k r :: nat
  assumes "r < k"
  shows "(a * k + r) div k = a" and "(a * k + r) mod k = r"
  using assms by simp_all

lemma base64_digits:
  fixes a x y z :: nat
  assumes "x < 64" "y < 64"
  shows "(a * 4096 + x * 64 + y) div 4096 = a"
    and "(a * 4096 + x * 64 + y) div 64 mod 64 = x"
    and "(a * 4096 + x * 64 + y) mod 64 = y"
    and "z < 64 \<Longrightarrow> (a * 262144 + z * 4096 + x * 64 + y) div 262144 = a"
    and "z < 64 \<Longrightarrow> (a * 262144 + z * 4096 + x * 64 + y) div 4096 mod 64 = z"
    and "(a * 262144 + z * 4096 + x * 64 + y) div 64 mod 64 = x"
    and "(a * 262144 + z * 4096 + x * 64 + y) mod 64 = y"
proof -
  have xy: "x * 64 + y < 4096" and zxy: "z < 64 \<Longrightarrow> z * 4096 + (x * 64 + y) < 262144"
    using assms by linarith+
  have r3: "a * 4096 + x * 64 + y = (a * 64 + x) * 64 + y"
    and r4: "a * 262144 + z * 4096 + x * 64 + y = ((a * 64 + z) * 64 + x) * 64 + y"
    and s3: "a * 4096 + x * 64 + y = a * 4096 + (x * 64 + y)"
    and s4: "a * 262144 + z * 4096 + x * 64 + y = (a * 64 + z) * 4096 + (x * 64 + y)"
    and t4: "a * 262144 + z * 4096 + x * 64 + y = a * 262144 + (z * 4096 + (x * 64 + y))"
    by simp_all
  show "(a * 4096 + x * 64 + y) div 4096 = a"
    unfolding s3 using xy by (rule div_mod_digit)
  show "(a * 4096 + x * 64 + y) div 64 mod 64 = x" "(a * 4096 + x * 64 + y) mod 64 = y"
    unfolding r3 by (simp_all only: div_mod_digit assms)
  show "z < 64 \<Longrightarrow> (a * 262144 + z * 4096 + x * 64 + y) div 262144 = a"
    unfolding t4 by (rule div_mod_digit) (rule zxy)
  show "z < 64 \<Longrightarrow> (a * 262144 + z * 4096 + x * 64 + y) div 4096 mod 64 = z"
    unfolding s4 by (simp only: div_mod_digit xy)
  show "(a * 262144 + z * 4096 + x * 64 + y) div 64 mod 64 = x"
    "(a * 262144 + z * 4096 + x * 64 + y) mod 64 = y"
    unfolding r4 by (simp_all only: div_mod_digit assms)
qed

lemma scalar3:
  fixes n x y :: nat
  assumes "n < 16" "x < 64" "y < 64" "n = 0 \<Longrightarrow> 32 \<le> x" "n = 13 \<Longrightarrow> x < 32"
  shows "scalar (n * 4096 + x * 64 + y)" and "0x800 \<le> n * 4096 + x * 64 + y"
    and "n * 4096 + x * 64 + y < 0x10000"
proof -
  show "0x800 \<le> n * 4096 + x * 64 + y"
    using assms by (cases "n = 0") linarith+
  show "n * 4096 + x * 64 + y < 0x10000"
    using assms by linarith
  then show "scalar (n * 4096 + x * 64 + y)"
    using assms unfolding scalar_def by (cases "n = 13") linarith+
qed

lemma scalar4:
  fixes n z x y :: nat
  assumes "n < 5" "z < 64" "x < 64" "y < 64" "n = 0 \<Longrightarrow> 16 \<le> z" "n = 4 \<Longrightarrow> z < 16"
  shows "scalar (n * 262144 + z * 4096 + x * 64 + y)"
    and "0x10000 \<le> n * 262144 + z * 4096 + x * 64 + y"
proof -
  show lo: "0x10000 \<le> n * 262144 + z * 4096 + x * 64 + y"
    using assms by (cases "n = 0") linarith+
  have "n * 262144 + z * 4096 + x * 64 + y < 0x110000"
    using assms by (cases "n = 4") linarith+
  with lo show "scalar (n * 262144 + z * 4096 + x * 64 + y)"
    unfolding scalar_def by linarith
qed

lemma encode3:
  assumes "0xE0 \<le> unat b" "unat b < 0xF0" "second3 (unat b) b1" "cont b2"
  shows "scalar ((unat b - 0xE0) * 4096 + low6 b1 * 64 + low6 b2)" (is "scalar ?c")
    and "utf8_encode ((unat b - 0xE0) * 4096 + low6 b1 * 64 + low6 b2) = [b, b1, b2]"
proof -
  have "cont b1" using assms(3) by (simp add: second3_def)
  note l = cont_low6_bound [OF this] cont_low6_bound [OF assms(4)]
  have "scalar ?c" "0x800 \<le> ?c" "?c < 0x10000"
    using assms l by (intro scalar3; force simp: second3_def low6_def)+
  then show "utf8_encode ?c = [b, b1, b2]" and "scalar ?c"
    using l assms(1) by (simp_all add: utf8_encode_def base64_digits)
qed

lemma encode4:
  assumes "0xF0 \<le> unat b" "unat b < 0xF5" "second4 (unat b) b1" "cont b2" "cont b3"
  shows "scalar ((unat b - 0xF0) * 262144 + low6 b1 * 4096 + low6 b2 * 64 + low6 b3)"
      (is "scalar ?c")
    and "utf8_encode ((unat b - 0xF0) * 262144 + low6 b1 * 4096 + low6 b2 * 64 + low6 b3) =
      [b, b1, b2, b3]"
proof -
  have "cont b1" using assms(3) by (simp add: second4_def)
  note l = cont_low6_bound [OF this] cont_low6_bound [OF assms(4)] cont_low6_bound [OF assms(5)]
  have "scalar ?c" "0x10000 \<le> ?c"
    using assms l by (intro scalar4; force simp: second4_def low6_def)+
  then show "utf8_encode ?c = [b, b1, b2, b3]" and "scalar ?c"
    using l assms(1) by (simp_all add: utf8_encode_def base64_digits)
qed

lemma utf8_next_sound:
  assumes "utf8_next s = Some (c, r)"
  shows "scalar c \<and> s = utf8_encode c @ r"
proof (cases s)
  case Nil
  with assms show ?thesis by simp
next
  case (Cons b t)
  have one: "unat b < 0x80 \<Longrightarrow> scalar (unat b) \<and> utf8_encode (unat b) = [b]"
    by (simp add: scalar_def utf8_encode_def)
  show ?thesis
    using assms unfolding Cons
    by (auto simp: Let_def one encode2 encode3 encode4 split: if_splits list.splits)
qed

lemma utf8_decode_sound: "utf8_decode s = Some cs \<Longrightarrow> list_all scalar cs \<and> s = concat (map utf8_encode cs)"
proof (induction s arbitrary: cs rule: utf8_decode.induct)
  case 1
  then show ?case by simp
next
  case (2 b s)
  then obtain c r ds where n: "utf8_next (b # s) = Some (c, r)"
    and d: "utf8_decode r = Some ds" and cs: "cs = c # ds"
    by (auto split: option.splits simp del: utf8_next.simps)
  from utf8_next_sound [OF n] have "scalar c" "b # s = utf8_encode c @ r"
    by simp_all
  with "2.IH" [OF n refl d] cs show ?case by simp
qed

theorem utf8_valid_iff: "utf8_valid s \<longleftrightarrow> (\<exists>cs. list_all scalar cs \<and> s = concat (map utf8_encode cs))"
  unfolding utf8_valid_def by (auto dest: utf8_decode_sound simp: utf8_decode_encode)

text \<open>Bytes below 0x80 are their own code points.\<close>

definition is_ascii :: "bytes \<Rightarrow> bool" where
  "is_ascii s = list_all (\<lambda>b. unat b < 0x80) s"

lemma is_ascii_simps [simp]:
  "is_ascii []" "is_ascii (b # s) = (unat b < 0x80 \<and> is_ascii s)"
  "is_ascii (s @ t) = (is_ascii s \<and> is_ascii t)"
  by (simp_all add: is_ascii_def)

lemma utf8_decode_ascii: "is_ascii s \<Longrightarrow> utf8_decode s = Some (map unat s)"
  by (induction s) simp_all

lemma ascii_utf8_valid [simp]: "is_ascii s \<Longrightarrow> utf8_valid s"
  by (simp add: utf8_valid_def utf8_decode_ascii)

lemma ascii_chars: "is_ascii s \<Longrightarrow> chars s = map unat s"
  by (simp add: chars_def utf8_decode_ascii)

lemma from_utf8_Ok_iff [simp]: "from_utf8 s = Ok t \<longleftrightarrow> utf8_valid s \<and> t = s"
  by (auto simp: from_utf8_def)

lemma from_utf8_valid: "utf8_valid s \<Longrightarrow> from_utf8 s = Ok s"
  by simp

subsection \<open>Character tests\<close>

definition ascii_digit :: "nat \<Rightarrow> bool" where
  "ascii_digit c = (48 \<le> c \<and> c \<le> 57)"

definition ascii_alpha :: "nat \<Rightarrow> bool" where
  "ascii_alpha c = (65 \<le> c \<and> c \<le> 90 \<or> 97 \<le> c \<and> c \<le> 122)"

text \<open>\<open>char::is_alphanumeric\<close>: exact on ASCII, the platform's Unicode tables above.\<close>

definition is_alphanumeric :: "platform \<Rightarrow> nat \<Rightarrow> bool" where
  "is_alphanumeric P c =
     (if c < 0x80 then ascii_digit c \<or> ascii_alpha c else unicode_alphanumeric P c)"

subsection \<open>Formatting unsigned integers\<close>

text \<open>The digit character of a value below 16, lower case.\<close>

definition digit_char :: "nat \<Rightarrow> u8" where
  "digit_char d = (if d < 10 then byte_of (48 + d) else byte_of (87 + d))"

fun radix_digits :: "nat \<Rightarrow> nat \<Rightarrow> bytes" where
  "radix_digits r n =
     (if n < r \<or> r < 2 then [digit_char n] else radix_digits r (n div r) @ [digit_char (n mod r)])"

declare radix_digits.simps [simp del]

text \<open>\<open>format!("{}", n)\<close>, \<open>format!("{:x}", n)\<close> and \<open>format!("{:02x}", b)\<close>.\<close>

definition dec_digits :: "nat \<Rightarrow> rstring" where
  "dec_digits n = radix_digits 10 n"

definition hex_digits :: "nat \<Rightarrow> rstring" where
  "hex_digits n = radix_digits 16 n"

definition hex_byte :: "u8 \<Rightarrow> rstring" where
  "hex_byte b = [digit_char (unat b div 16), digit_char (unat b mod 16)]"

lemma digit_char_range:
  assumes "d < 16"
  shows "unat (digit_char d) = (if d < 10 then 48 + d else 87 + d)"
  using assms by (simp add: digit_char_def)

lemma digit_char_alnum:
  assumes "d < 16"
  shows "ascii_digit (unat (digit_char d)) \<or> ascii_alpha (unat (digit_char d))"
    and "unat (digit_char d) < 0x80"
  using assms by (auto simp: digit_char_range ascii_digit_def ascii_alpha_def)

lemma unat_u8_div_mod_16 [simp]: "unat (b :: u8) div 16 < 16" "unat (b :: u8) mod 16 < 16"
  using unsigned_less [of b, where 'a = nat] by (simp_all add: less_mult_imp_div_less)

lemma length_hex_byte [simp]: "length (hex_byte b) = 2"
  by (simp add: hex_byte_def)

lemma hex_byte_ascii [simp]: "is_ascii (hex_byte b)"
  by (simp add: hex_byte_def digit_char_alnum)

end
