(* ===== verification/Net_Addr.thy ===== *)
theory Net_Addr
  imports Text
begin

text \<open>
  The part of \<open>std::net\<close> the program uses: IPv4 and IPv6 socket addresses, their textual form
  (\<open>to_string\<close>) and its parser (\<open>str::parse::<SocketAddr>\<close>), and the multicast test. The parser is
  the standard library's recursive descent over the bytes of the string: a reader returns \<open>None\<close>
  and leaves the input where it was, or a value and the rest. The lemmas show that parsing the
  text of an address gives the address back; the text of an IPv6 address has no flow
  information, so this holds for addresses whose flow information is zero.
\<close>

subsection \<open>Addresses\<close>

datatype ipv4_addr = Ipv4Addr u8 u8 u8 u8
datatype ipv6_addr = Ipv6Addr u16 u16 u16 u16 u16 u16 u16 u16

datatype ip_addr = IpV4 ipv4_addr | IpV6 ipv6_addr

text \<open>\<open>V4 ip port\<close> and \<open>V6 ip port flowinfo scope_id\<close>.\<close>

datatype socket_addr =
    V4 (v4_ip: ipv4_addr) (v4_port: u16)
  | V6 (v6_ip: ipv6_addr) (v6_port: u16) (v6_flowinfo: u32) (v6_scope: u32)

definition LOCALHOST :: ipv4_addr where
  "LOCALHOST = Ipv4Addr 127 0 0 1"

fun octets :: "ipv4_addr \<Rightarrow> u8 list" where
  "octets (Ipv4Addr a b c d) = [a, b, c, d]"

fun segments :: "ipv6_addr \<Rightarrow> u16 list" where
  "segments (Ipv6Addr a b c d e f g h) = [a, b, c, d, e, f, g, h]"

fun port :: "socket_addr \<Rightarrow> u16" where
  "port (V4 _ p) = p"
| "port (V6 _ p _ _) = p"

fun ip :: "socket_addr \<Rightarrow> ip_addr" where
  "ip (V4 a _) = IpV4 a"
| "ip (V6 a _ _ _) = IpV6 a"

text \<open>\<open>is_multicast\<close>: 224.0.0.0/4 and ff00::/8.\<close>

fun is_multicast :: "ip_addr \<Rightarrow> bool" where
  "is_multicast (IpV4 (Ipv4Addr a b c d)) = (224 \<le> unat a \<and> unat a \<le> 239)"
| "is_multicast (IpV6 (Ipv6Addr a b c d e f g h)) = (unat a div 256 = 255)"

subsection \<open>Printing\<close>

definition DOT :: u8 where "DOT = 46"
definition COLON :: u8 where "COLON = 58"
definition PERCENT :: u8 where "PERCENT = 37"
definition LBRACKET :: u8 where "LBRACKET = 91"
definition RBRACKET :: u8 where "RBRACKET = 93"

lemmas punct_defs = DOT_def COLON_def PERCENT_def LBRACKET_def RBRACKET_def

fun sep_by :: "u8 \<Rightarrow> rstring list \<Rightarrow> rstring" where
  "sep_by c [] = []"
| "sep_by c [s] = s"
| "sep_by c (s # ss) = s @ c # sep_by c ss"

definition show_ipv4 :: "ipv4_addr \<Rightarrow> rstring" where
  "show_ipv4 a = sep_by DOT (map (\<lambda>b. dec_digits (unat b)) (octets a))"

text \<open>The first longest run of zero segments, as its start and its length.\<close>

fun longest_zeroes :: "nat \<Rightarrow> nat \<times> nat \<Rightarrow> nat \<times> nat \<Rightarrow> u16 list \<Rightarrow> nat \<times> nat" where
  "longest_zeroes i cur best [] = best"
| "longest_zeroes i (cs, cl) (bs, bl) (s # ss) =
     (if s = 0 then
        (let cur = (if cl = 0 then (i, 1) else (cs, cl + 1))
         in longest_zeroes (Suc i) cur (if bl < snd cur then cur else (bs, bl)) ss)
      else longest_zeroes (Suc i) (0, 0) (bs, bl) ss)"

definition show_segments :: "u16 list \<Rightarrow> rstring" where
  "show_segments ss = sep_by COLON (map (\<lambda>s. hex_digits (unat s)) ss)"

text \<open>\<open>to_ipv4_mapped\<close>: \<open>::ffff:a.b.c.d\<close>.\<close>

fun to_ipv4_mapped :: "ipv6_addr \<Rightarrow> ipv4_addr option" where
  "to_ipv4_mapped (Ipv6Addr a b c d e f g h) =
     (if a = 0 \<and> b = 0 \<and> c = 0 \<and> d = 0 \<and> e = 0 \<and> f = 0xFFFF
      then Some (Ipv4Addr (ucast (drop_bit 8 g)) (ucast g) (ucast (drop_bit 8 h)) (ucast h))
      else None)"

definition show_ipv6 :: "ipv6_addr \<Rightarrow> rstring" where
  "show_ipv6 a =
    (case to_ipv4_mapped a of
       Some v4 \<Rightarrow> [COLON, COLON] @ hex_digits 0xFFFF @ [COLON] @ show_ipv4 v4
     | None \<Rightarrow>
        (let ss = segments a; (start, len) = longest_zeroes 0 (0, 0) (0, 0) ss
         in if 1 < len
            then show_segments (take start ss) @ [COLON, COLON] @ show_segments (drop (start + len) ss)
            else show_segments ss))"

fun show_socket_addr :: "socket_addr \<Rightarrow> rstring" where
  "show_socket_addr (V4 a p) = show_ipv4 a @ COLON # dec_digits (unat p)"
| "show_socket_addr (V6 a p flow scope) =
     LBRACKET # show_ipv6 a @ (if scope = 0 then [] else PERCENT # dec_digits (unat scope)) @
     RBRACKET # COLON # dec_digits (unat p)"

subsection \<open>Parsing\<close>

type_synonym 'a reader = "bytes \<Rightarrow> ('a \<times> bytes) option"

text \<open>\<open>char::to_digit(radix)\<close> for radix 10 and 16.\<close>

definition to_digit :: "nat \<Rightarrow> u8 \<Rightarrow> nat option" where
  "to_digit r b =
    (let n = unat b;
         d = (if 48 \<le> n \<and> n \<le> 57 then n - 48
              else if 97 \<le> n \<and> n \<le> 102 then n - 87
              else if 65 \<le> n \<and> n \<le> 70 then n - 55 else 16)
     in if d < r then Some d else None)"

definition is_digit :: "nat \<Rightarrow> u8 \<Rightarrow> bool" where
  "is_digit r b = (to_digit r b \<noteq> None)"

definition digits_value :: "nat \<Rightarrow> bytes \<Rightarrow> nat" where
  "digits_value r ds = foldl (\<lambda>v b. v * r + the (to_digit r b)) 0 ds"

text \<open>
  \<open>read_number(radix, max_digits, allow_zero_prefix)\<close> into a type with the values below \<open>bound\<close>.
  The loop of the library consumes digits as long as there are any; overflowing the type or the
  number of digits at any point makes it fail, and both only grow along the loop.
\<close>

definition read_number :: "nat \<Rightarrow> nat option \<Rightarrow> bool \<Rightarrow> nat \<Rightarrow> nat reader" where
  "read_number r max_digits allow_zero_prefix bound s =
    (let ds = takeWhile (is_digit r) s; v = digits_value r ds
     in if ds = [] then None
        else if (case max_digits of Some m \<Rightarrow> m < length ds | None \<Rightarrow> False) then None
        else if \<not> allow_zero_prefix \<and> hd ds = 48 \<and> 1 < length ds then None
        else if v < bound then Some (v, dropWhile (is_digit r) s)
        else None)"

fun read_given_char :: "u8 \<Rightarrow> unit reader" where
  "read_given_char c (b # s) = (if b = c then Some ((), s) else None)"
| "read_given_char c [] = None"

text \<open>\<open>read_separator(sep, index, inner)\<close>: the separator precedes every item but the first.\<close>

definition read_separator :: "u8 \<Rightarrow> nat \<Rightarrow> 'a reader \<Rightarrow> 'a reader" where
  "read_separator c i inner s =
    (if 0 < i then (case read_given_char c s of None \<Rightarrow> None | Some (_, s') \<Rightarrow> inner s')
     else inner s)"

definition read_octet :: "nat \<Rightarrow> nat reader" where
  "read_octet i = read_separator DOT i (read_number 10 (Some 3) False 256)"

definition read_ipv4_addr :: "ipv4_addr reader" where
  "read_ipv4_addr s =
    (case read_octet 0 s of None \<Rightarrow> None | Some (a, s) \<Rightarrow>
     case read_octet 1 s of None \<Rightarrow> None | Some (b, s) \<Rightarrow>
     case read_octet 2 s of None \<Rightarrow> None | Some (c, s) \<Rightarrow>
     case read_octet 3 s of None \<Rightarrow> None | Some (d, s) \<Rightarrow>
       Some (Ipv4Addr (byte_of a) (byte_of b) (byte_of c) (byte_of d), s))"

definition read_group :: "nat \<Rightarrow> nat reader" where
  "read_group i = read_separator COLON i (read_number 16 (Some 4) True 65536)"

text \<open>
  \<open>read_groups\<close> with \<open>limit\<close> slots, from slot \<open>i\<close>: the groups read, whether the last two came
  from an embedded IPv4 address, and the rest of the input.
\<close>

function read_groups :: "nat \<Rightarrow> nat \<Rightarrow> bytes \<Rightarrow> u16 list \<times> bool \<times> bytes" where
  "read_groups limit i s =
    (if limit \<le> i then ([], False, s)
     else
      (case (if i < limit - 1 then read_separator COLON i read_ipv4_addr s else None) of
         Some (Ipv4Addr a b c d, s') \<Rightarrow> ([be16 a b, be16 c d], True, s')
       | None \<Rightarrow>
          (case read_group i s of
             Some (g, s') \<Rightarrow>
               (let (gs, v4, r) = read_groups limit (Suc i) s' in (of_nat g # gs, v4, r))
           | None \<Rightarrow> ([], False, s))))"
  by pat_completeness auto
termination
  by (relation "measure (\<lambda>(limit, i, s). limit - i)") auto

declare read_groups.simps [simp del]

fun ipv6_of_segments :: "u16 list \<Rightarrow> ipv6_addr" where
  "ipv6_of_segments [a, b, c, d, e, f, g, h] = Ipv6Addr a b c d e f g h"
| "ipv6_of_segments _ = Ipv6Addr 0 0 0 0 0 0 0 0"

definition read_ipv6_addr :: "ipv6_addr reader" where
  "read_ipv6_addr s =
    (let (head, head_ipv4, s1) = read_groups 8 0 s in
     if length head = 8 then Some (ipv6_of_segments head, s1)
     else if head_ipv4 then None
     else
      (case read_given_char COLON s1 of None \<Rightarrow> None | Some (_, s2) \<Rightarrow>
       case read_given_char COLON s2 of None \<Rightarrow> None | Some (_, s3) \<Rightarrow>
         (let (tail, _, s4) = read_groups (8 - (length head + 1)) 0 s3
          in Some (ipv6_of_segments
                     (head @ replicate (8 - (length head + length tail)) 0 @ tail), s4))))"

definition read_port :: "nat reader" where
  "read_port s = (case read_given_char COLON s of None \<Rightarrow> None
     | Some (_, s') \<Rightarrow> read_number 10 None True 65536 s')"

definition read_scope_id :: "nat reader" where
  "read_scope_id s = (case read_given_char PERCENT s of None \<Rightarrow> None
     | Some (_, s') \<Rightarrow> read_number 10 None True 4294967296 s')"

definition read_socket_addr_v4 :: "socket_addr reader" where
  "read_socket_addr_v4 s =
    (case read_ipv4_addr s of None \<Rightarrow> None | Some (a, s) \<Rightarrow>
     case read_port s of None \<Rightarrow> None | Some (p, s) \<Rightarrow> Some (V4 a (of_nat p), s))"

definition read_socket_addr_v6 :: "socket_addr reader" where
  "read_socket_addr_v6 s =
    (case read_given_char LBRACKET s of None \<Rightarrow> None | Some (_, s) \<Rightarrow>
     case read_ipv6_addr s of None \<Rightarrow> None | Some (a, s) \<Rightarrow>
     case (case read_scope_id s of None \<Rightarrow> (0, s) | Some x \<Rightarrow> x) of (scope, s) \<Rightarrow>
     case read_given_char RBRACKET s of None \<Rightarrow> None | Some (_, s) \<Rightarrow>
     case read_port s of None \<Rightarrow> None | Some (p, s) \<Rightarrow>
       Some (V6 a (of_nat p) 0 (of_nat scope), s))"

text \<open>\<open>str::parse::<SocketAddr>()\<close>: the whole string has to be read.\<close>

definition parse_socket_addr :: "rstring \<Rightarrow> (socket_addr, unit) outcome" where
  "parse_socket_addr s =
    (case (case read_socket_addr_v4 s of Some x \<Rightarrow> Some x | None \<Rightarrow> read_socket_addr_v6 s) of
       Some (a, []) \<Rightarrow> Ok a
     | _ \<Rightarrow> Err ())"

subsection \<open>Numbers\<close>

definition radix_ok :: "nat \<Rightarrow> bool" where
  "radix_ok r = (r = 10 \<or> r = 16)"

definition stops :: "nat \<Rightarrow> bytes \<Rightarrow> bool" where
  "stops r s = (s = [] \<or> \<not> is_digit r (hd s))"

lemma radix_ok_simps [simp]: "radix_ok 10" "radix_ok 16"
  by (simp_all add: radix_ok_def)

lemma to_digit_char: "radix_ok r \<Longrightarrow> d < r \<Longrightarrow> to_digit r (digit_char d) = Some d"
  by (auto simp: radix_ok_def to_digit_def digit_char_range Let_def split: if_splits)

lemma radix_digits_all:
  "radix_ok r \<Longrightarrow> b \<in> set (radix_digits r n) \<Longrightarrow> is_digit r b \<and> unat b < 0x80"
proof (induction r n rule: radix_digits.induct)
  case (1 r n)
  then show ?case
    by (subst (asm) (2) radix_digits.simps)
      (auto simp: is_digit_def to_digit_char digit_char_alnum radix_ok_def split: if_splits)
qed

lemma digits_value_snoc: "digits_value r (ds @ [b]) = digits_value r ds * r + the (to_digit r b)"
  by (simp add: digits_value_def)

lemma digits_value_radix: "radix_ok r \<Longrightarrow> digits_value r (radix_digits r n) = n"
proof (induction r n rule: radix_digits.induct)
  case (1 r n)
  show ?case
  proof (cases "n < r")
    case True
    with "1.prems" show ?thesis
      by (subst radix_digits.simps) (simp add: digits_value_def to_digit_char)
  next
    case False
    with 1 have "digits_value r (radix_digits r (n div r)) = n div r"
      by (auto simp: radix_ok_def)
    with False "1.prems" show ?thesis
      by (subst radix_digits.simps) (auto simp: digits_value_snoc to_digit_char radix_ok_def)
  qed
qed

lemma radix_digits_length: "2 \<le> r \<Longrightarrow> n < r ^ k \<Longrightarrow> 0 < k \<Longrightarrow> length (radix_digits r n) \<le> k"
proof (induction r n arbitrary: k rule: radix_digits.induct)
  case (1 r n)
  show ?case
  proof (cases "n < r")
    case True
    with "1.prems" show ?thesis by (subst radix_digits.simps) simp
  next
    case False
    with "1.prems" obtain j where k: "k = Suc j" "0 < j"
      by (cases k; cases "k - 1") auto
    with "1.prems" have "n div r < r ^ j"
      by (simp add: less_mult_imp_div_less mult.commute)
    with "1.IH" False "1.prems" k have "length (radix_digits r (n div r)) \<le> j" by simp
    with False k "1.prems" show ?thesis by (subst radix_digits.simps) simp
  qed
qed

lemma radix_digits_not_Nil [simp]: "radix_digits r n \<noteq> []"
  by (subst radix_digits.simps) simp

lemma radix_digits_hd: "radix_ok r \<Longrightarrow> 0 < n \<Longrightarrow> hd (radix_digits r n) \<noteq> 48"
proof (induction r n rule: radix_digits.induct)
  case (1 r n)
  show ?case
  proof (cases "n < r")
    case True
    have "unat (digit_char n) \<noteq> 48"
      using True "1.prems" by (auto simp: digit_char_range radix_ok_def split: if_splits)
    then have "digit_char n \<noteq> 48" by auto
    with True show ?thesis by (subst radix_digits.simps) simp
  next
    case False
    with 1 have "hd (radix_digits r (n div r)) \<noteq> 48"
      by (auto simp: radix_ok_def div_greater_zero_iff)
    with False "1.prems" show ?thesis by (subst radix_digits.simps) (auto simp: radix_ok_def)
  qed
qed

lemma radix_digits_zero: "radix_ok r \<Longrightarrow> length (radix_digits r 0) = 1"
  by (subst radix_digits.simps) (auto simp: radix_ok_def)

lemma read_number_digits:
  assumes r: "radix_ok r" and n: "n < bound" and stop: "stops r rest"
    and len: "\<And>m. max_digits = Some m \<Longrightarrow> length (radix_digits r n) \<le> m"
  shows "read_number r max_digits zp bound (radix_digits r n @ rest) = Some (n, rest)"
proof -
  have all: "\<forall>b \<in> set (radix_digits r n). is_digit r b"
    using radix_digits_all [OF r] by blast
  have rest: "takeWhile (is_digit r) rest = []" "dropWhile (is_digit r) rest = rest"
    using stop by (cases rest; simp add: stops_def)+
  have split: "takeWhile (is_digit r) (radix_digits r n @ rest) = radix_digits r n"
    "dropWhile (is_digit r) (radix_digits r n @ rest) = rest"
    using all rest by (simp_all add: takeWhile_append dropWhile_append)
  have zero: "\<not> (hd (radix_digits r n) = 48 \<and> 1 < length (radix_digits r n))"
    using radix_digits_hd [OF r, of n] radix_digits_zero [OF r] by (cases "n = 0") auto
  show ?thesis
    unfolding read_number_def Let_def split digits_value_radix [OF r]
    using zero n len by (auto split: option.splits)
qed

lemma read_number_none: "stops r s \<Longrightarrow> read_number r m zp bound s = None"
  by (cases s) (auto simp: read_number_def stops_def Let_def)

lemma stops_punct [simp]:
  "stops r []"
  "stops 10 (DOT # s)" "stops 10 (COLON # s)" "stops 10 (PERCENT # s)" "stops 10 (RBRACKET # s)"
  "stops 16 (DOT # s)" "stops 16 (COLON # s)" "stops 16 (PERCENT # s)" "stops 16 (RBRACKET # s)"
  by (simp_all add: stops_def is_digit_def to_digit_def punct_defs Let_def)

subsection \<open>IPv4\<close>

lemma read_octet_digits:
  fixes b :: u8
  assumes "stops 10 rest"
  shows "read_octet 0 (dec_digits (unat b) @ rest) = Some (unat b, rest)"
    and "0 < i \<Longrightarrow> read_octet i (DOT # dec_digits (unat b) @ rest) = Some (unat b, rest)"
proof -
  have b: "unat b < 256"
    using unsigned_less [of b, where 'a = nat] by simp
  then have "length (radix_digits 10 (unat b)) \<le> 3"
    by (intro radix_digits_length) simp_all
  with b assms have "read_number 10 (Some 3) False 256 (radix_digits 10 (unat b) @ rest) =
      Some (unat b, rest)"
    by (intro read_number_digits) simp_all
  then show "read_octet 0 (dec_digits (unat b) @ rest) = Some (unat b, rest)"
    and "0 < i \<Longrightarrow> read_octet i (DOT # dec_digits (unat b) @ rest) = Some (unat b, rest)"
    by (simp_all add: read_octet_def read_separator_def dec_digits_def)
qed

lemma read_ipv4_show: "stops 10 rest \<Longrightarrow> read_ipv4_addr (show_ipv4 a @ rest) = Some (a, rest)"
  by (cases a) (simp add: show_ipv4_def read_ipv4_addr_def read_octet_digits)

lemma read_port_digits: "read_port (COLON # dec_digits (unat (p :: u16))) = Some (unat p, [])"
proof -
  have "unat p < 65536"
    using unsigned_less [of p, where 'a = nat] by simp
  then have "read_number 10 None True 65536 (radix_digits 10 (unat p) @ []) = Some (unat p, [])"
    by (intro read_number_digits) simp_all
  then show ?thesis by (simp add: read_port_def dec_digits_def)
qed

lemma parse_show_v4: "parse_socket_addr (show_socket_addr (V4 a p)) = Ok (V4 a p)"
  by (simp add: parse_socket_addr_def read_socket_addr_v4_def read_ipv4_show read_port_digits)

subsection \<open>IPv6\<close>

lemma read_octet_rest: "read_octet 0 s = Some (v, t) \<Longrightarrow> t = dropWhile (is_digit 10) s"
  by (auto simp: read_octet_def read_separator_def read_number_def Let_def split: if_splits)

lemma read_ipv4_needs_dot:
  assumes "\<And>t. dropWhile (is_digit 10) s \<noteq> DOT # t"
  shows "read_ipv4_addr s = None"
proof (cases "read_octet 0 s")
  case None
  then show ?thesis by (simp add: read_ipv4_addr_def)
next
  case (Some x)
  then obtain v t where x: "read_octet 0 s = Some (v, t)" by (cases x) auto
  have "\<And>u. t \<noteq> DOT # u"
    using assms read_octet_rest [OF x] by simp
  then have "read_octet 1 t = None"
    by (cases t) (auto simp: read_octet_def read_separator_def)
  with x show ?thesis by (simp add: read_ipv4_addr_def)
qed

text \<open>What may follow a group: the end, a closing bracket, a scope or a colon.\<close>

definition group_end :: "bytes \<Rightarrow> bool" where
  "group_end s = (s = [] \<or> hd s = COLON \<or> hd s = PERCENT \<or> hd s = RBRACKET)"

definition groups_end :: "bytes \<Rightarrow> bool" where
  "groups_end s =
     (s = [] \<or> hd s = PERCENT \<or> hd s = RBRACKET \<or> (\<exists>t. s = COLON # COLON # t))"

lemma groups_end_group_end: "groups_end s \<Longrightarrow> group_end s"
  by (auto simp: group_end_def groups_end_def)

lemma group_end_stops: "group_end s \<Longrightarrow> stops 16 s \<and> stops 10 s"
  by (cases s) (auto simp: group_end_def)

lemma hex_not_dot: "b \<in> set (hex_digits n) \<Longrightarrow> b \<noteq> DOT"
  using radix_digits_all [of 16 b n]
  by (auto simp: hex_digits_def is_digit_def to_digit_def DOT_def Let_def)

lemma dropWhile_in_set: "dropWhile P s = b # t \<Longrightarrow> b \<in> set s"
  by (induction s) (auto split: if_splits)

lemma read_ipv4_hex:
  assumes "group_end rest"
  shows "read_ipv4_addr (hex_digits n @ rest) = None"
proof (rule read_ipv4_needs_dot)
  fix t
  have rest: "dropWhile (is_digit 10) rest = rest" "rest \<noteq> DOT # t"
    using group_end_stops [OF assms] assms
    by (cases rest; auto simp: stops_def group_end_def punct_defs)+
  have hex: "dropWhile (is_digit 10) (hex_digits n) \<noteq> DOT # u" for u
    by (auto dest: dropWhile_in_set hex_not_dot)
  show "dropWhile (is_digit 10) (hex_digits n @ rest) \<noteq> DOT # t"
  proof (cases "dropWhile (is_digit 10) (hex_digits n)")
    case Nil
    with rest show ?thesis by (auto simp: dropWhile_append dropWhile_eq_Nil_conv)
  next
    case (Cons b u)
    then have "\<not> (\<forall>x \<in> set (hex_digits n). is_digit 10 x)"
      by (simp flip: dropWhile_eq_Nil_conv)
    then have "dropWhile (is_digit 10) (hex_digits n @ rest) = b # u @ rest"
      using Cons by (simp only: dropWhile_append if_False append_Cons)
    with hex Cons show ?thesis by auto
  qed
qed

lemma read_ipv4_end: "group_end s \<Longrightarrow> read_ipv4_addr s = None"
proof (rule read_ipv4_needs_dot)
  fix t
  assume e: "group_end s"
  then have "dropWhile (is_digit 10) s = s"
    using group_end_stops [OF e] by (cases s) (auto simp: stops_def)
  with e show "dropWhile (is_digit 10) s \<noteq> DOT # t"
    by (auto simp: group_end_def punct_defs)
qed

lemma read_hex_group:
  fixes g :: u16
  assumes "group_end rest"
  shows "read_number 16 (Some 4) True 65536 (hex_digits (unat g) @ rest) = Some (unat g, rest)"
proof -
  have g: "unat g < 65536"
    using unsigned_less [of g, where 'a = nat] by simp
  then have "length (radix_digits 16 (unat g)) \<le> 4"
    by (intro radix_digits_length) simp_all
  with g assms show ?thesis
    unfolding hex_digits_def
    by (intro read_number_digits) (simp_all add: group_end_stops)
qed

text \<open>The text of groups that follow others, and of groups from slot \<open>i\<close> on.\<close>

definition colon_groups :: "u16 list \<Rightarrow> rstring" where
  "colon_groups gs = concat (map (\<lambda>g. COLON # hex_digits (unat g)) gs)"

definition show_groups :: "nat \<Rightarrow> u16 list \<Rightarrow> rstring" where
  "show_groups i gs = (if i = 0 then show_segments gs else colon_groups gs)"

lemma show_segments_Cons: "show_segments (g # gs) = hex_digits (unat g) @ colon_groups gs"
  by (induction gs arbitrary: g) (simp_all add: show_segments_def colon_groups_def)

lemma show_groups_Cons:
  "show_groups i (g # gs) =
     (if 0 < i then [COLON] else []) @ hex_digits (unat g) @ show_groups (Suc i) gs"
  by (simp add: show_groups_def show_segments_Cons) (simp add: colon_groups_def)

lemma show_groups_Nil [simp]: "show_groups i [] = []"
  by (simp add: show_groups_def show_segments_def colon_groups_def)

lemma group_end_show_groups:
  "0 < i \<Longrightarrow> group_end rest \<Longrightarrow> group_end (show_groups i gs @ rest)"
  by (cases gs) (simp_all add: show_groups_Cons group_end_def)

lemma read_group_next:
  assumes "group_end rest"
  shows "read_group i (show_groups i [g] @ rest) = Some (unat g, rest)"
    and "read_separator COLON i read_ipv4_addr (show_groups i [g] @ rest) = None"
  using assms
  by (simp_all add: show_groups_Cons read_group_def read_separator_def read_hex_group read_ipv4_hex)

lemma read_group_stop:
  assumes "groups_end rest"
  shows "read_group i rest = None" and "read_separator COLON i read_ipv4_addr rest = None"
proof -
  have first: "read_number 16 (Some 4) True 65536 s = None" "read_ipv4_addr s = None"
    if "group_end s" for s
    using that by (simp_all add: read_number_none group_end_stops read_ipv4_end)
  have next_item: "read_given_char COLON rest = None \<or>
      (\<exists>t. read_given_char COLON rest = Some ((), t) \<and> group_end t)"
    using assms by (cases rest) (auto simp: groups_end_def group_end_def punct_defs)
  show "read_group i rest = None" "read_separator COLON i read_ipv4_addr rest = None"
    using next_item first first [OF groups_end_group_end [OF assms]]
    by (auto simp: read_group_def read_separator_def)
qed

lemma read_groups_show:
  assumes "length gs \<le> limit - i" and "groups_end rest"
  shows "read_groups limit i (show_groups i gs @ rest) = (gs, False, rest)"
  using assms
proof (induction gs arbitrary: i)
  case Nil
  then show ?case by (subst read_groups.simps) (simp add: read_group_stop)
next
  case (Cons g gs)
  have split: "show_groups i (g # gs) @ rest = show_groups i [g] @ (show_groups (Suc i) gs @ rest)"
    by (simp add: show_groups_Cons)
  have "group_end (show_groups (Suc i) gs @ rest)"
    using Cons.prems by (simp add: group_end_show_groups groups_end_group_end)
  note next_group = read_group_next [OF this]
  have "read_groups limit (Suc i) (show_groups (Suc i) gs @ rest) = (gs, False, rest)"
    using Cons by simp
  with Cons.prems show ?case
    unfolding split by (subst read_groups.simps) (simp add: next_group)
qed

text \<open>The run of zeroes that is left out really is one.\<close>

definition zeroes :: "u16 list \<Rightarrow> nat \<times> nat \<Rightarrow> bool" where
  "zeroes ss z = (case z of (start, len) \<Rightarrow>
     start + len \<le> length ss \<and> take len (drop start ss) = replicate len 0)"

lemma zeroes_extend: "zeroes ss z \<Longrightarrow> zeroes (ss @ ts) z"
  by (auto simp: zeroes_def)

lemma longest_zeroes_zeroes:
  assumes "zeroes pre (bs, bl)" and "cl \<noteq> 0 \<Longrightarrow> zeroes pre (cs, cl) \<and> cs + cl = length pre"
  shows "zeroes (pre @ ss) (longest_zeroes (length pre) (cs, cl) (bs, bl) ss)"
  using assms
proof (induction ss arbitrary: pre cs cl bs bl)
  case Nil
  then show ?case by simp
next
  case (Cons s ss)
  show ?case
  proof (cases "s = 0")
    case True
    define cur where "cur = (if cl = 0 then (length pre, 1) else (cs, cl + 1))"
    define best where "best = (if bl < snd cur then cur else (bs, bl))"
    have c: "zeroes (pre @ [s]) cur \<and> fst cur + snd cur = length (pre @ [s])"
      using Cons.prems(2) True
      by (auto simp: cur_def zeroes_def replicate_append_same)
    then have "zeroes (pre @ [s]) best"
      using Cons.prems(1) by (simp add: best_def zeroes_extend)
    with c Cons.IH [of "pre @ [s]" "fst best" "snd best" "snd cur" "fst cur"] True show ?thesis
      by (simp add: Let_def cur_def [symmetric] best_def [symmetric])
  next
    case False
    with Cons.IH [of "pre @ [s]" bs bl 0 0] Cons.prems(1) show ?thesis
      by (simp add: zeroes_extend)
  qed
qed

lemma longest_zeroes_segments:
  assumes "longest_zeroes 0 (0, 0) (0, 0) ss = (start, len)"
  shows "start + len \<le> length ss"
    and "ss = take start ss @ replicate len 0 @ drop (start + len) ss"
proof -
  have z: "zeroes ss (start, len)"
    using longest_zeroes_zeroes [of "[]" 0 0 0 0 ss] assms by (simp add: zeroes_def)
  then show "start + len \<le> length ss" by (simp add: zeroes_def)
  have "ss = take start ss @ take len (drop start ss) @ drop (start + len) ss"
    by (metis append_take_drop_id drop_drop add.commute)
  with z show "ss = take start ss @ replicate len 0 @ drop (start + len) ss"
    by (simp add: zeroes_def)
qed

lemma segments_length [simp]: "length (segments a) = 8"
  by (cases a) simp

lemma ipv6_of_segments_segments [simp]: "ipv6_of_segments (segments a) = a"
  by (cases a) simp

lemma to_ipv4_mapped_segments:
  assumes "to_ipv4_mapped a = Some (Ipv4Addr w x y z)"
  shows "segments a = [0, 0, 0, 0, 0, 0xFFFF, be16 w x, be16 y z]"
  using assms by (cases a) (auto split: if_splits)

lemma read_ipv6_show:
  assumes "groups_end rest" and "\<And>t. rest \<noteq> COLON # t"
  shows "read_ipv6_addr (show_ipv6 a @ rest) = Some (a, rest)"
proof (cases "to_ipv4_mapped a")
  case (Some v4)
  obtain w x y z where v4: "v4 = Ipv4Addr w x y z" by (cases v4)
  define t where "t = hex_digits 0xFFFF @ [COLON] @ show_ipv4 v4 @ rest"
  have shape: "show_ipv6 a @ rest = COLON # COLON # t"
    using Some by (simp add: show_ipv6_def t_def)
  have "read_groups 8 0 (show_groups 0 [] @ (COLON # COLON # t)) = ([], False, COLON # COLON # t)"
    by (rule read_groups_show) (simp_all add: groups_end_def)
  moreover have "read_groups 7 0 t = ([0xFFFF, be16 w x, be16 y z], True, rest)"
  proof -
    have e: "group_end (COLON # show_ipv4 v4 @ rest)"
      by (simp add: group_end_def)
    have "stops 10 rest"
      using assms(1) by (simp add: group_end_stops groups_end_group_end)
    then have "read_groups 7 (Suc 0) (COLON # show_ipv4 v4 @ rest) =
        ([be16 w x, be16 y z], True, rest)"
      by (subst read_groups.simps) (simp add: read_separator_def read_ipv4_show v4)
    with read_group_next [OF e, of 0 "0xFFFF"] show ?thesis
      by (subst read_groups.simps) (simp add: t_def show_groups_Cons)
  qed
  ultimately have "read_ipv6_addr (COLON # COLON # t) =
      Some (ipv6_of_segments [0, 0, 0, 0, 0, 0xFFFF, be16 w x, be16 y z], rest)"
    by (simp add: read_ipv6_addr_def numeral_eq_Suc)
  moreover have "ipv6_of_segments [0, 0, 0, 0, 0, 0xFFFF, be16 w x, be16 y z] = a"
    using to_ipv4_mapped_segments [of a w x y z] Some v4 ipv6_of_segments_segments [of a] by simp
  ultimately show ?thesis unfolding shape by simp
next
  case None
  obtain start len where z: "longest_zeroes 0 (0, 0) (0, 0) (segments a) = (start, len)"
    by fastforce
  note zs = longest_zeroes_segments [OF z]
  show ?thesis
  proof (cases "1 < len")
    case True
    define tl where "tl = drop (start + len) (segments a)"
    define t where "t = show_groups 0 tl @ rest"
    have shape: "show_ipv6 a @ rest = show_groups 0 (take start (segments a)) @ COLON # COLON # t"
      using None z True by (simp add: show_ipv6_def t_def tl_def show_groups_def Let_def)
    have "read_groups 8 0 (show_groups 0 (take start (segments a)) @ COLON # COLON # t) =
        (take start (segments a), False, COLON # COLON # t)"
      by (rule read_groups_show) (simp_all add: groups_end_def)
    moreover have "read_groups (8 - (start + 1)) 0 t = (tl, False, rest)"
      unfolding t_def using True assms by (intro read_groups_show) (auto simp: tl_def)
    moreover have "start < 8" "8 - (start + length tl) = len"
      using zs(1) True by (auto simp: tl_def)
    moreover have "take start (segments a) @ replicate len 0 @ tl = segments a"
      using zs(2) by (simp add: tl_def)
    ultimately show ?thesis
      unfolding shape by (simp add: read_ipv6_addr_def)
  next
    case False
    have "read_groups 8 0 (show_groups 0 (segments a) @ rest) = (segments a, False, rest)"
      using assms(1) by (intro read_groups_show) simp_all
    then show ?thesis
      using None z False by (simp add: show_ipv6_def read_ipv6_addr_def show_groups_def Let_def)
  qed
qed

lemma read_scope_digits:
  "read_scope_id (PERCENT # dec_digits (unat (w :: u32)) @ RBRACKET # t) = Some (unat w, RBRACKET # t)"
proof -
  have "unat w < 4294967296"
    using unsigned_less [of w, where 'a = nat] by simp
  then have "read_number 10 None True 4294967296 (radix_digits 10 (unat w) @ RBRACKET # t) =
      Some (unat w, RBRACKET # t)"
    by (intro read_number_digits) simp_all
  then show ?thesis by (simp add: read_scope_id_def dec_digits_def)
qed

lemma read_scope_none: "read_scope_id (RBRACKET # t) = None"
  by (simp add: read_scope_id_def punct_defs)

lemma read_v6_show:
  "read_socket_addr_v6 (show_socket_addr (V6 a p 0 scope)) = Some (V6 a p 0 scope, [])"
proof (cases "scope = 0")
  case True
  have "read_ipv6_addr (show_ipv6 a @ RBRACKET # COLON # dec_digits (unat p)) =
      Some (a, RBRACKET # COLON # dec_digits (unat p))"
    by (rule read_ipv6_show) (simp_all add: groups_end_def punct_defs)
  with True show ?thesis
    by (simp add: read_socket_addr_v6_def read_scope_none read_port_digits)
next
  case False
  have "read_ipv6_addr (show_ipv6 a @ PERCENT # dec_digits (unat scope) @ RBRACKET # COLON #
      dec_digits (unat p)) =
      Some (a, PERCENT # dec_digits (unat scope) @ RBRACKET # COLON # dec_digits (unat p))"
    by (rule read_ipv6_show) (simp_all add: groups_end_def punct_defs)
  with False show ?thesis
    by (simp add: read_socket_addr_v6_def read_scope_digits read_port_digits)
qed

lemma read_v4_bracket: "read_socket_addr_v4 (LBRACKET # s) = None"
proof -
  have "read_octet 0 (LBRACKET # s) = None"
    by (simp add: read_octet_def read_separator_def read_number_def is_digit_def to_digit_def
        LBRACKET_def)
  then show ?thesis by (simp add: read_socket_addr_v4_def read_ipv4_addr_def)
qed

subsection \<open>The round trip\<close>

text \<open>An address whose text determines it.\<close>

fun printable :: "socket_addr \<Rightarrow> bool" where
  "printable (V4 _ _) = True"
| "printable (V6 _ _ flow _) = (flow = 0)"

lemma parse_show_socket_addr:
  "printable a \<Longrightarrow> parse_socket_addr (show_socket_addr a) = Ok a"
proof (cases a)
  case (V4 i p)
  then show ?thesis by (simp only: parse_show_v4)
next
  case (V6 i p flow scope)
  assume "printable a"
  with V6 have a: "a = V6 i p 0 scope" by simp
  have "read_socket_addr_v4 (show_socket_addr a) = None"
    by (simp add: a read_v4_bracket)
  then show ?thesis
    unfolding parse_socket_addr_def a by (simp only: read_v6_show option.case prod.case list.case)
qed

text \<open>The text of an address has no flow information, and determines the rest.\<close>

fun forget_flow :: "socket_addr \<Rightarrow> socket_addr" where
  "forget_flow (V4 a p) = V4 a p"
| "forget_flow (V6 a p flow scope) = V6 a p 0 scope"

lemma forget_flow_printable: "printable a \<Longrightarrow> forget_flow a = a"
  by (cases a) simp_all

lemma parse_show_forgets: "parse_socket_addr (show_socket_addr a) = Ok (forget_flow a)"
proof -
  have "show_socket_addr a = show_socket_addr (forget_flow a)" by (cases a) simp_all
  moreover have "printable (forget_flow a)" by (cases a) simp_all
  ultimately show ?thesis by (simp only: parse_show_socket_addr)
qed

text \<open>The text is ASCII, and short.\<close>

lemma dec_digits_ascii [simp]: "is_ascii (dec_digits n)"
  by (auto simp: dec_digits_def is_ascii_def list_all_iff dest: radix_digits_all [rotated])

lemma hex_digits_ascii [simp]: "is_ascii (hex_digits n)"
  by (auto simp: hex_digits_def is_ascii_def list_all_iff dest: radix_digits_all [rotated])

lemma sep_by_ascii: "(\<And>s. s \<in> set ss \<Longrightarrow> is_ascii s) \<Longrightarrow> unat c < 0x80 \<Longrightarrow> is_ascii (sep_by c ss)"
  by (induction c ss rule: sep_by.induct) auto

lemma show_ipv4_ascii [simp]: "is_ascii (show_ipv4 a)"
  unfolding show_ipv4_def by (rule sep_by_ascii) (auto simp: DOT_def)

lemma show_segments_ascii [simp]: "is_ascii (show_segments ss)"
  unfolding show_segments_def by (rule sep_by_ascii) (auto simp: COLON_def)

lemma show_socket_addr_ascii [simp]: "is_ascii (show_socket_addr a)"
  by (cases a)
    (auto simp: show_ipv6_def punct_defs Let_def split: option.splits prod.splits)

lemma digits_length:
  "length (dec_digits (unat (b :: u8))) \<le> 3"
  "length (dec_digits (unat (p :: u16))) \<le> 5"
  "length (dec_digits (unat (w :: u32))) \<le> 10"
  "length (hex_digits (unat (p :: u16))) \<le> 4"
  using unsigned_less [of b, where 'a = nat] unsigned_less [of p, where 'a = nat]
    unsigned_less [of w, where 'a = nat]
  unfolding dec_digits_def hex_digits_def
  by (auto intro!: radix_digits_length)

lemma show_ipv4_length: "length (show_ipv4 a) \<le> 15"
proof (cases a)
  case (Ipv4Addr w x y z)
  then show ?thesis
    using digits_length(1) [of w] digits_length(1) [of x] digits_length(1) [of y]
      digits_length(1) [of z]
    by (simp add: show_ipv4_def)
qed

lemma show_segments_length: "length (show_segments gs) \<le> 5 * length gs"
proof (cases gs)
  case (Cons g hs)
  have "length (colon_groups hs) \<le> 5 * length hs"
  proof (induction hs)
    case (Cons h hs)
    then show ?case using digits_length(4) [of h] by (simp add: colon_groups_def)
  qed (simp add: colon_groups_def)
  with digits_length(4) [of g] show ?thesis by (simp add: Cons show_segments_Cons)
qed (simp add: show_segments_def)

lemma show_ipv6_length: "length (show_ipv6 a) \<le> 42"
proof (cases "to_ipv4_mapped a")
  case (Some v4)
  then show ?thesis
    using show_ipv4_length [of v4] digits_length(4) [of "0xFFFF"] by (simp add: show_ipv6_def)
next
  case None
  obtain start len where z: "longest_zeroes 0 (0, 0) (0, 0) (segments a) = (start, len)"
    by fastforce
  have "length (show_segments (take start (segments a))) +
      length (show_segments (drop (start + len) (segments a))) \<le> 40"
    using show_segments_length [of "take start (segments a)"]
      show_segments_length [of "drop (start + len) (segments a)"]
    by (simp add: min_def split: if_splits)
  then show ?thesis
    using None z show_segments_length [of "segments a"] by (simp add: show_ipv6_def Let_def)
qed

lemma show_socket_addr_length: "length (show_socket_addr a) \<le> 64"
proof (cases a)
  case (V4 i p)
  then show ?thesis using show_ipv4_length [of i] digits_length(2) [of p] by simp
next
  case (V6 i p f sc)
  then show ?thesis
    using show_ipv6_length [of i] digits_length(2) [of p] digits_length(3) [of sc] by simp
qed

end
