(* ===== verification/Err.thy ===== *)
theory Err
  imports Net_Addr
begin

text \<open>
  The error types of the p2p crate (\<^verbatim>\<open>crate/p2p/src/err.rs\<close>) and of the core (\<^verbatim>\<open>core/src/err.rs\<close>), and
  the conversions the \<open>?\<close> operator applies. Payloads that come from other crates (I/O, TOTP, JSON,
  keyring) are opaque: a string stands for the error value that was received. The message types
  of \<^verbatim>\<open>proto.rs\<close> are here because a parse error carries one.
\<close>

datatype io_error = IoError string

text \<open>\<open>MessageType\<close> with its \<open>u8\<close> representation.\<close>

datatype message_type = Discovery | Connect

fun message_type_code :: "message_type \<Rightarrow> u8" where
  "message_type_code Discovery = 1"
| "message_type_code Connect = 2"

text \<open>\<open>InitError\<close>, \<open>IdError\<close>, \<open>ParseError\<close>, \<open>HandshakeError\<close>, \<open>PairingError\<close>.\<close>

datatype init_error = NotMulticast | InitNet io_error

datatype id_error = IdLength | IdInvalidCharacters

datatype parse_error =
    NotAPacket
  | MsgType message_type
  | ParseIO io_error
  | ParseEnum nat
  | ParseAddr
  | ParseId id_error

datatype handshake_error =
    HsParse parse_error
  | HsFailure u32
  | HsTimeout
  | HsDisconnect
  | HsAuth
  | HsMsg
  | HsNotFound
  | HsDup
  | HsAddr

datatype pairing_error =
    PairTotp string
  | PairQrCode string
  | PairSecret string
  | PairTime string

text \<open>\<open>TryFromPrimitiveError<T>\<close> carries the number that is no discriminant of \<open>T\<close>.\<close>

definition parse_error_of_primitive :: "nat \<Rightarrow> parse_error" where
  "parse_error_of_primitive number = ParseEnum number"

definition handshake_error_of_unspecified :: "unit \<Rightarrow> handshake_error" where
  "handshake_error_of_unspecified u = HsAuth"

definition pairing_error_of_string :: "string \<Rightarrow> pairing_error" where
  "pairing_error_of_string value = PairQrCode value"

text \<open>\<open>MessageType::try_from_primitive\<close>, as derived from the discriminants.\<close>

definition message_type_try_from :: "u8 \<Rightarrow> (message_type, nat) outcome" where
  "message_type_try_from n =
     (if n = 1 then Ok Discovery else if n = 2 then Ok Connect else Err (unat n))"

lemma message_type_try_from_code [simp]: "message_type_try_from (message_type_code t) = Ok t"
  by (cases t) (simp_all add: message_type_try_from_def)

lemma message_type_try_from_Ok_iff: "message_type_try_from n = Ok t \<longleftrightarrow> n = message_type_code t"
  by (cases t) (auto simp: message_type_try_from_def)

lemma message_type_try_from_not_Panic [simp]: "message_type_try_from n \<noteq> Panic"
  by (simp add: message_type_try_from_def)

text \<open>\<open>ConfError\<close> and \<open>CoreError\<close> of the core.\<close>

datatype keyring_error = NoEntry | KeyringError string

datatype conf_error = ConfIO io_error | ConfJson string | ConfSecret keyring_error

datatype core_error =
    CoreConf conf_error
  | CoreIO io_error
  | NoNetworkAccess
  | CoreP2p init_error

end
