(* ===== verification/Pairing.thy ===== *)
theory Pairing
  imports Err
begin

text \<open>
  Pairing (\<^verbatim>\<open>crate/p2p/src/pairing.rs\<close>) and message authentication (\<^verbatim>\<open>crate/p2p/src/hmac.rs\<close>). Both are thin
  layers over third-party crates: the TOTP crate is the record \<open>totp_api\<close>, the HMAC and digest
  functions of \<^verbatim>\<open>ring\<close> the record \<open>ring_api\<close>. The locales state what the crates document and what
  the program relies on; the lemmas in them are what the handshake uses.
\<close>

subsection \<open>Time-based one-time passwords\<close>

datatype totp_algorithm = TotpSHA1 | TotpSHA256 | TotpSHA512

text \<open>
  \<open>totp_new algorithm digits skew step secret issuer account_name\<close> is \<open>TOTP::new\<close>; the clock that
  \<open>check_current\<close> and \<open>generate_current\<close> read is an argument (seconds since the epoch).
\<close>

record 't totp_api =
  totp_new :: "totp_algorithm \<Rightarrow> nat \<Rightarrow> nat \<Rightarrow> nat \<Rightarrow> bytes \<Rightarrow> string option \<Rightarrow> string \<Rightarrow>
    ('t, string) outcome"
  totp_from_url :: "rstring \<Rightarrow> ('t, string) outcome"
  totp_get_qr :: "'t \<Rightarrow> (string, string) outcome"
  totp_check_current :: "'t \<Rightarrow> rstring \<Rightarrow> nat \<Rightarrow> (bool, string) outcome"
  totp_generate_current :: "'t \<Rightarrow> nat \<Rightarrow> (rstring, string) outcome"
  totp_secret_base32 :: "'t \<Rightarrow> rstring"
  secret_encoded_to_bytes :: "rstring \<Rightarrow> (bytes, string) outcome"

record 't pairing_authenticator =
  totp :: 't

definition authenticator_new ::
    "'t totp_api \<Rightarrow> bytes \<Rightarrow> ('t pairing_authenticator, pairing_error) outcome" where
  "authenticator_new T secret =
     bind_o (map_err PairTotp (totp_new T TotpSHA256 8 1 15 secret None ''flydrop-client''))
       (\<lambda>t. Ok \<lparr>totp = t\<rparr>)"

definition authenticator_from_url ::
    "'t totp_api \<Rightarrow> rstring \<Rightarrow> ('t pairing_authenticator, pairing_error) outcome" where
  "authenticator_from_url T url =
     bind_o (map_err PairTotp (totp_from_url T url)) (\<lambda>t. Ok \<lparr>totp = t\<rparr>)"

datatype png = Png string

definition to_qr_code :: "'t totp_api \<Rightarrow> 't pairing_authenticator \<Rightarrow> (png, pairing_error) outcome" where
  "to_qr_code T self = bind_o (map_err PairQrCode (totp_get_qr T (totp self))) (\<lambda>p. Ok (Png p))"

definition check ::
    "'t totp_api \<Rightarrow> 't pairing_authenticator \<Rightarrow> rstring \<Rightarrow> nat \<Rightarrow> (bool, pairing_error) outcome" where
  "check T self token now = map_err PairTime (totp_check_current T (totp self) token now)"

definition generate ::
    "'t totp_api \<Rightarrow> 't pairing_authenticator \<Rightarrow> nat \<Rightarrow> (rstring, pairing_error) outcome" where
  "generate T self now = map_err PairTime (totp_generate_current T (totp self) now)"

definition authenticator_to_string :: "'t totp_api \<Rightarrow> 't pairing_authenticator \<Rightarrow> rstring" where
  "authenticator_to_string T self = totp_secret_base32 T (totp self)"

definition authenticator_from_str ::
    "'t totp_api \<Rightarrow> rstring \<Rightarrow> ('t pairing_authenticator, pairing_error) outcome" where
  "authenticator_from_str T s =
     bind_o (map_err PairSecret (secret_encoded_to_bytes T s)) (authenticator_new T)"

text \<open>
  The documented behaviour the pairing relies on. A password is determined by the secret and the
  time step the clock falls into (RFC 6238); \<open>check_current\<close> accepts the passwords of the steps that are at
  most the skew away from the current one; the base-32 form of a secret decodes to the secret.
\<close>

locale totp_crate =
  fixes T :: "'t totp_api"
  assumes generate_step:
      "totp_new T alg digits skew step secret iss acc = Ok t \<Longrightarrow> 0 < step \<Longrightarrow>
       now div step = now' div step \<Longrightarrow>
       totp_generate_current T t now = totp_generate_current T t now'"
    and check_skew:
      "totp_new T alg digits skew step secret iss acc = Ok t \<Longrightarrow> 0 < step \<Longrightarrow>
       totp_generate_current T t now' = Ok token \<Longrightarrow>
       now' div step \<le> now div step + skew \<Longrightarrow> now div step \<le> now' div step + skew \<Longrightarrow>
       totp_check_current T t token now = Ok True"
    and base32_decodes:
      "totp_new T alg digits skew step secret iss acc = Ok t \<Longrightarrow>
       secret_encoded_to_bytes T (totp_secret_base32 T t) = Ok secret"
begin

lemma generate_same_window:
  assumes "authenticator_new T secret = Ok a" and "now div 15 = now' div 15"
  shows "generate T a now = generate T a now'"
proof -
  obtain t where t: "totp_new T TotpSHA256 8 1 15 secret None ''flydrop-client'' = Ok t"
    and a: "a = \<lparr>totp = t\<rparr>"
    using assms(1) by (auto simp: authenticator_new_def bind_o_Ok_iff)
  show ?thesis
    using generate_step [OF t _ assms(2)] by (simp add: generate_def a)
qed

lemma check_neighbours:
  assumes "authenticator_new T secret = Ok a" and "generate T a now' = Ok token"
    and "now' div 15 \<le> now div 15 + 1" and "now div 15 \<le> now' div 15 + 1"
  shows "check T a token now = Ok True"
proof -
  obtain t where t: "totp_new T TotpSHA256 8 1 15 secret None ''flydrop-client'' = Ok t"
    and a: "a = \<lparr>totp = t\<rparr>"
    using assms(1) by (auto simp: authenticator_new_def bind_o_Ok_iff)
  show ?thesis
    using check_skew [OF t _ _ assms(3,4)] assms(2) by (simp add: check_def generate_def a)
qed

lemma from_str_to_string:
  assumes "authenticator_new T secret = Ok a"
  shows "authenticator_from_str T (authenticator_to_string T a) = Ok a"
proof -
  obtain t where t: "totp_new T TotpSHA256 8 1 15 secret None ''flydrop-client'' = Ok t"
    and a: "a = \<lparr>totp = t\<rparr>"
    using assms by (auto simp: authenticator_new_def bind_o_Ok_iff)
  show ?thesis
    using base32_decodes [OF t] assms
    by (simp add: authenticator_from_str_def authenticator_to_string_def a)
qed

end

subsection \<open>HMAC and digests\<close>

record ring_api =
  hmac_sha256 :: "bytes \<Rightarrow> bytes \<Rightarrow> bytes"
  hmac_verify :: "bytes \<Rightarrow> bytes \<Rightarrow> bytes \<Rightarrow> bool"
  digest_sha256 :: "bytes \<Rightarrow> bytes"

text \<open>\<open>hmac.rs\<close>: the key is \<open>hmac::Key::new(HMAC_SHA256, key)\<close> in both.\<close>

definition sign :: "ring_api \<Rightarrow> bytes \<Rightarrow> bytes \<Rightarrow> bytes" where
  "sign R key data = hmac_sha256 R key data"

definition verify :: "ring_api \<Rightarrow> bytes \<Rightarrow> bytes \<Rightarrow> bytes \<Rightarrow> (unit, unit) outcome" where
  "verify R key data tag = (if hmac_verify R key data tag then Ok () else Err ())"

locale ring_crate =
  fixes R :: ring_api
  assumes hmac_verify_iff: "hmac_verify R key data tag \<longleftrightarrow> tag = hmac_sha256 R key data"
    and hmac_length: "length (hmac_sha256 R key data) = 32"
    and digest_length: "length (digest_sha256 R data) = 32"
begin

lemma sign_length [simp]: "length (sign R key data) = 32"
  by (simp add: sign_def hmac_length)

lemma verify_Ok_iff [simp]: "verify R key data tag = Ok () \<longleftrightarrow> tag = sign R key data"
  by (simp add: verify_def sign_def hmac_verify_iff)

lemma verify_sign: "verify R key data (sign R key data) = Ok ()"
  by simp

end

end
