(* ===== verification/Reference_Crypto.thy ===== *)
theory Reference_Crypto
  imports Pairing
begin

text \<open>
  The functions the third-party crates document, from their standards: SHA-256 (FIPS 180-4), HMAC
  (RFC 2104), TOTP over HMAC-SHA-256 (RFC 6238 and RFC 4226) and base 32 without padding
  (RFC 4648). They are the values at which the locales \<open>ring_crate\<close> and \<open>totp_crate\<close> hold, so that
  what is proved from the documented laws applies to the real functions and can be instantiated.
\<close>

subsection \<open>SHA-256\<close>

type_synonym sha_state = "u32 \<times> u32 \<times> u32 \<times> u32 \<times> u32 \<times> u32 \<times> u32 \<times> u32"

text \<open>
  The constants are the first 32 bits of the fractional parts of the cube roots of the first 64
  primes and of the square roots of the first 8: integer roots, found bit by bit.
\<close>

fun integer_root :: "nat \<Rightarrow> nat \<Rightarrow> nat \<Rightarrow> nat \<Rightarrow> nat" where
  "integer_root k 0 acc n = acc"
| "integer_root k (Suc b) acc n =
     integer_root k b (if (acc + 2 ^ b) ^ k \<le> n then acc + 2 ^ b else acc) n"

definition small_primes :: "nat list" where
  "small_primes = filter (\<lambda>n. list_all (\<lambda>d. n mod d \<noteq> 0) [2..<n]) [2..<312]"

definition sha_k :: "u32 list" where
  "sha_k = map (\<lambda>p. of_nat (integer_root 3 35 0 (p * 2 ^ 96))) small_primes"

definition sha_init :: sha_state where
  "sha_init = (let r = (\<lambda>p. of_nat (integer_root 2 35 0 (p * 2 ^ 64)))
     in (r 2, r 3, r 5, r 7, r 11, r 13, r 17, r 19))"

definition rotr :: "nat \<Rightarrow> u32 \<Rightarrow> u32" where
  "rotr n w = (drop_bit n w OR push_bit (32 - n) w)"

fun sha_round :: "sha_state \<Rightarrow> u32 \<times> u32 \<Rightarrow> sha_state" where
  "sha_round (a, b, c, d, e, f, g, h) (k, w) =
     (let s1 = rotr 6 e XOR rotr 11 e XOR rotr 25 e;
          ch = (e AND f) XOR (NOT e AND g);
          t1 = h + s1 + ch + k + w;
          s0 = rotr 2 a XOR rotr 13 a XOR rotr 22 a;
          maj = (a AND b) XOR (a AND c) XOR (b AND c);
          t2 = s0 + maj
      in (t1 + t2, a, b, c, d + t1, e, f, g))"

text \<open>The message schedule, with the last sixteen words as a window.\<close>

fun sha_schedule :: "nat \<Rightarrow> u32 list \<Rightarrow> u32 list" where
  "sha_schedule 0 ws = ws"
| "sha_schedule (Suc n) ws =
     (let w15 = ws ! 1; w2 = ws ! 14;
          s0 = rotr 7 w15 XOR rotr 18 w15 XOR drop_bit 3 w15;
          s1 = rotr 17 w2 XOR rotr 19 w2 XOR drop_bit 10 w2
      in hd ws # sha_schedule n (tl ws @ [hd ws + s0 + ws ! 9 + s1]))"

fun sha_add :: "sha_state \<Rightarrow> sha_state \<Rightarrow> sha_state" where
  "sha_add (a, b, c, d, e, f, g, h) (a', b', c', d', e', f', g', h') =
     (a + a', b + b', c + c', d + d', e + e', f + f', g + g', h + h')"

fun words_of_bytes :: "bytes \<Rightarrow> u32 list" where
  "words_of_bytes (a # b # c # d # s) = be32 a b c d # words_of_bytes s"
| "words_of_bytes _ = []"

definition sha_block :: "sha_state \<Rightarrow> bytes \<Rightarrow> sha_state" where
  "sha_block st block =
     sha_add st (foldl sha_round st (zip sha_k (sha_schedule 48 (words_of_bytes block))))"

definition be64_nat :: "nat \<Rightarrow> bytes" where
  "be64_nat n = map (\<lambda>i. byte_of (n div 256 ^ i mod 256)) [7, 6, 5, 4, 3, 2, 1, 0]"

definition sha_pad :: "bytes \<Rightarrow> bytes" where
  "sha_pad m = m @ [0x80] @ replicate ((119 - length m mod 64) mod 64) 0 @ be64_nat (8 * length m)"

fun chunks64 :: "nat \<Rightarrow> bytes \<Rightarrow> bytes list" where
  "chunks64 0 s = []"
| "chunks64 (Suc n) s = take 64 s # chunks64 n (drop 64 s)"

fun sha_output :: "sha_state \<Rightarrow> bytes" where
  "sha_output (a, b, c, d, e, f, g, h) =
     be32_bytes a @ be32_bytes b @ be32_bytes c @ be32_bytes d @
     be32_bytes e @ be32_bytes f @ be32_bytes g @ be32_bytes h"

definition sha256 :: "bytes \<Rightarrow> bytes" where
  "sha256 m = (let p = sha_pad m
     in sha_output (foldl sha_block sha_init (chunks64 (length p div 64) p)))"

lemma sha_output_length [simp]: "length (sha_output st) = 32"
  by (cases st rule: sha_output.cases) simp

subsection \<open>HMAC\<close>

definition hmac_key :: "bytes \<Rightarrow> bytes" where
  "hmac_key key = (let k = (if 64 < length key then sha256 key else key)
     in k @ replicate (64 - length k) 0)"

definition hmac256 :: "bytes \<Rightarrow> bytes \<Rightarrow> bytes" where
  "hmac256 key m =
     sha256 (map ((XOR) 0x5c) (hmac_key key) @ sha256 (map ((XOR) 0x36) (hmac_key key) @ m))"

definition reference_ring :: ring_api where
  "reference_ring = \<lparr>hmac_sha256 = hmac256,
     hmac_verify = (\<lambda>key m tag. tag = hmac256 key m), digest_sha256 = sha256\<rparr>"

interpretation reference_ring: ring_crate reference_ring
  by unfold_locales (simp_all add: reference_ring_def hmac256_def sha256_def Let_def)

subsection \<open>Base 32\<close>

text \<open>Bits, most significant first.\<close>

definition bits_of :: "nat \<Rightarrow> 'a::semiring_bits \<Rightarrow> bool list" where
  "bits_of n w = rev (map (bit w) [0..<n])"

definition of_bits :: "bool list \<Rightarrow> 'a::comm_semiring_1" where
  "of_bits bs = horner_sum of_bool 2 (rev bs)"

lemma length_bits_of [simp]: "length (bits_of n w) = n"
  by (simp add: bits_of_def)

lemma of_bits_byte [simp]: "of_bits (bits_of 8 b) = (b :: u8)"
  by (simp only: of_bits_def bits_of_def rev_rev_ident horner_sum_bit_eq_take_bit)
    (simp add: take_bit_word_eq_self)

lemma bits_of_nat: "length bs = n \<Longrightarrow> bits_of n (of_bits bs :: nat) = bs"
proof -
  assume n: "length bs = n"
  have "map (bit (horner_sum of_bool 2 (rev bs) :: nat)) [0..<n] = rev bs"
    using n by (auto intro!: nth_equalityI simp: bit_horner_sum_bit_iff)
  then show ?thesis by (simp add: of_bits_def bits_of_def)
qed

lemma of_bits_less: "(of_bits bs :: nat) < 2 ^ length bs"
proof -
  have "of_bits bs = (take_bit (length bs) (of_bits bs) :: nat)"
    unfolding of_bits_def
    by (rule bit_eqI) (auto simp: bit_horner_sum_bit_iff bit_take_bit_iff)
  then show ?thesis by (metis take_bit_nat_less_exp)
qed

function groups5 :: "bool list \<Rightarrow> bool list list" where
  "groups5 bs =
     (if bs = [] then [] else take 5 (bs @ replicate 4 False) # groups5 (drop 5 bs))"
  by pat_completeness auto
termination
  by (relation "measure length") auto

function bytes8 :: "bool list \<Rightarrow> bytes" where
  "bytes8 bs = (if length bs < 8 then [] else of_bits (take 8 bs) # bytes8 (drop 8 bs))"
  by pat_completeness auto
termination
  by (relation "measure length") auto

declare groups5.simps [simp del] bytes8.simps [simp del]

definition base32_char :: "nat \<Rightarrow> u8" where
  "base32_char n = (if n < 26 then byte_of (65 + n) else byte_of (24 + n))"

definition base32_value :: "u8 \<Rightarrow> nat option" where
  "base32_value c =
     (if 65 \<le> unat c \<and> unat c \<le> 90 then Some (unat c - 65)
      else if 50 \<le> unat c \<and> unat c \<le> 55 then Some (unat c - 24) else None)"

definition base32_encode :: "bytes \<Rightarrow> rstring" where
  "base32_encode m = map (base32_char \<circ> of_bits) (groups5 (concat (map (bits_of 8) m)))"

definition base32_decode :: "rstring \<Rightarrow> (bytes, string) outcome" where
  "base32_decode s =
     (if list_all (\<lambda>c. base32_value c \<noteq> None) s
      then Ok (bytes8 (concat (map (\<lambda>c. bits_of 5 (the (base32_value c))) s)))
      else Err ''ParseBase32'')"

lemma base32_value_char: "n < 32 \<Longrightarrow> base32_value (base32_char n) = Some n"
  by (auto simp: base32_value_def base32_char_def)

lemma groups5_flat:
  "\<exists>pad. concat (groups5 bs) = bs @ pad \<and> length pad < 5 \<and> list_all (\<lambda>g. length g = 5) (groups5 bs)"
proof (induction bs rule: groups5.induct)
  case (1 bs)
  show ?case
  proof (cases "length bs < 5")
    case True
    have nil: "groups5 [] = []" by (subst groups5.simps) simp
    show ?thesis
    proof (cases "bs = []")
      case False
      with True have "take 5 (bs @ replicate 4 False) = bs @ replicate (5 - length bs) False"
        by (cases bs) simp_all
      with True False nil have "groups5 bs = [bs @ replicate (5 - length bs) False]"
        by (subst groups5.simps) simp
      with True False show ?thesis
        by (intro exI [of _ "replicate (5 - length bs) False"]) (cases bs; simp)
    qed (simp add: nil)
  next
    case False
    then have ne: "bs \<noteq> []" by auto
    with 1 obtain pad where pad: "concat (groups5 (drop 5 bs)) = drop 5 bs @ pad" "length pad < 5"
      "list_all (\<lambda>g. length g = 5) (groups5 (drop 5 bs))" by blast
    with ne False show ?thesis
      by (subst (1 2) groups5.simps) (simp add: append_assoc [symmetric] del: append_assoc)
  qed
qed

lemma bytes8_flat: "length pad < 8 \<Longrightarrow> bytes8 (concat (map (bits_of 8) m) @ pad) = m"
proof (induction m)
  case Nil
  then show ?case by (subst bytes8.simps) simp
next
  case (Cons b m)
  then show ?case by (subst bytes8.simps) simp
qed

lemma base32_decode_encode: "base32_decode (base32_encode m) = Ok m"
proof -
  let ?gs = "groups5 (concat (map (bits_of 8) m))"
  obtain pad where pad: "concat ?gs = concat (map (bits_of 8) m) @ pad" "length pad < 5"
    and five: "\<forall>g \<in> set ?gs. length g = 5"
    using groups5_flat [of "concat (map (bits_of 8) m)"] by (auto simp: list_all_iff)
  have small: "(of_bits g :: nat) < 32" if "g \<in> set ?gs" for g
    using that five of_bits_less [of g] by simp
  have "map (\<lambda>c. bits_of 5 (the (base32_value c))) (base32_encode m) = ?gs"
    unfolding base32_encode_def map_map
    by (rule map_idI) (use five small in \<open>simp add: base32_value_char bits_of_nat\<close>)
  moreover have "list_all (\<lambda>c. base32_value c \<noteq> None) (base32_encode m)"
    using small by (auto simp: base32_encode_def list_all_iff base32_value_char)
  ultimately show ?thesis
    using pad by (simp add: base32_decode_def bytes8_flat)
qed

subsection \<open>TOTP\<close>

record totp_state =
  ts_digits :: nat
  ts_skew :: nat
  ts_step :: nat
  ts_secret :: bytes

text \<open>Dynamic truncation of RFC 4226, and the password for a counter, padded with zeroes.\<close>

definition hotp_truncate :: "bytes \<Rightarrow> nat" where
  "hotp_truncate tag =
     (let off = unat (last tag) mod 16; b = take 4 (drop off tag)
      in foldl (\<lambda>v x. v * 256 + unat x) 0 b mod 2 ^ 31)"

definition pad_zeroes :: "nat \<Rightarrow> rstring \<Rightarrow> rstring" where
  "pad_zeroes n s = replicate (n - length s) 48 @ s"

definition hotp :: "totp_state \<Rightarrow> nat \<Rightarrow> rstring" where
  "hotp t counter =
     pad_zeroes (ts_digits t)
       (dec_digits (hotp_truncate (hmac256 (ts_secret t) (be64_nat counter)) mod 10 ^ ts_digits t))"

text \<open>
  \<open>TOTP::new\<close> refuses other than six to eight digits and secrets of fewer than 128 bits; a token is
  checked against the passwords of the time steps within the skew. Only SHA-256 is provided here,
  the algorithm the program asks for.
\<close>

definition reference_totp :: "totp_state totp_api" where
  "reference_totp = \<lparr>
     totp_new = (\<lambda>alg digits skew step secret issuer account.
       if digits < 6 \<or> 8 < digits then Err ''DigitsNumber''
       else if length secret < 16 then Err ''SecretSize''
       else if alg \<noteq> TotpSHA256 then Err ''Algorithm''
       else Ok \<lparr>ts_digits = digits, ts_skew = skew, ts_step = step, ts_secret = secret\<rparr>),
     totp_from_url = (\<lambda>url. Err ''Url''),
     totp_get_qr = (\<lambda>t. Err ''QrCode''),
     totp_check_current = (\<lambda>t token now. Ok (\<exists>d \<in> set [0..<Suc (2 * ts_skew t)].
       token = hotp t (now div ts_step t + d - ts_skew t))),
     totp_generate_current = (\<lambda>t now. Ok (hotp t (now div ts_step t))),
     totp_secret_base32 = (\<lambda>t. base32_encode (ts_secret t)),
     secret_encoded_to_bytes = base32_decode \<rparr>"

text \<open>A counter within the skew is one of those that are tried.\<close>

lemma skew_tried:
  fixes c :: nat
  assumes "c' \<le> c + s" "c \<le> c' + s"
  shows "\<exists>d \<in> set [0..<Suc (2 * s)]. f c' = f (c + d - s)"
  using assms by (intro bexI [of _ "c' + s - c"]) auto

interpretation reference_totp: totp_crate reference_totp
proof
  show "totp_check_current reference_totp t token now = Ok True"
    if "totp_new reference_totp alg digits skew step secret iss acc = Ok t" "0 < step"
      "totp_generate_current reference_totp t now' = Ok token"
      "now' div step \<le> now div step + skew" "now div step \<le> now' div step + skew"
    for alg digits skew step secret iss acc t now' token now
    using that skew_tried [OF that(4,5), of "hotp t"] by (auto simp: reference_totp_def split: if_split_asm)
qed (auto simp: reference_totp_def base32_decode_encode split: if_splits)

end
