(* ===== verification/Peer.thy ===== *)
theory Peer
  imports Reference_Crypto
begin

text \<open>
  Peers (\<^verbatim>\<open>crate/p2p/src/peer/id.rs\<close> and \<^verbatim>\<open>peer/peer.rs\<close>, and the events of \<^verbatim>\<open>event.rs\<close>): identifiers and
  their constructors, identities, device types with their wire codes, metadata, candidates
  and connected peers. The loop of a connection is in \<open>Transport\<close>.
\<close>

subsection \<open>Peer identifiers\<close>

datatype peer_id = PeerId (inner: rstring)

text \<open>\<open>String::len\<close> counts bytes; \<open>chars().all(..)\<close> looks at code points.\<close>

definition from_string :: "platform \<Rightarrow> rstring \<Rightarrow> (peer_id, id_error) outcome" where
  "from_string P s =
     (if length s \<noteq> 40 then Err IdLength
      else if \<not> list_all (is_alphanumeric P) (chars s) then Err IdInvalidCharacters
      else Ok (PeerId s))"

text \<open>\<open>from_cert\<close>: the SHA-256 digest of the certificate, two hexadecimal digits per byte.\<close>

definition from_cert :: "ring_api \<Rightarrow> bytes \<Rightarrow> peer_id" where
  "from_cert R cert = PeerId (concat (map hex_byte (digest_sha256 R cert)))"

definition peer_id_to_string :: "peer_id \<Rightarrow> rstring" where
  "peer_id_to_string i = inner i"

text \<open>\<open>id.as_bytes()\<close>, through \<open>Deref<Target = String>\<close>.\<close>

definition id_bytes :: "peer_id \<Rightarrow> bytes" where
  "id_bytes i = inner i"

text \<open>\<open>impl PartialEq<PeerId> for &PeerId\<close>: the strings are compared, as in the derived equality.\<close>

definition peer_id_eq :: "peer_id \<Rightarrow> peer_id \<Rightarrow> bool" where
  "peer_id_eq self other = (inner self = inner other)"

lemma peer_id_eq_iff [simp]: "peer_id_eq self other \<longleftrightarrow> self = other"
  by (cases self; cases other) (simp add: peer_id_eq_def)

definition peer_id_default :: peer_id where
  "peer_id_default = PeerId (lit ''0000000000000000000000000000000000000000'')"

text \<open>\<open>#[derive(PartialOrd)]\<close>: the order of the strings, which is bytewise.\<close>

instantiation peer_id :: linorder
begin

definition less_eq_peer_id :: "peer_id \<Rightarrow> peer_id \<Rightarrow> bool" where
  "less_eq_peer_id a b = (inner a \<le> inner b)"

definition less_peer_id :: "peer_id \<Rightarrow> peer_id \<Rightarrow> bool" where
  "less_peer_id a b = (inner a < inner b)"

instance
  by standard (auto simp: less_eq_peer_id_def less_peer_id_def peer_id.expand)

end

text \<open>A well-formed identifier: what \<open>from_string\<close> accepts, stored in a valid string.\<close>

definition peer_id_ok :: "platform \<Rightarrow> peer_id \<Rightarrow> bool" where
  "peer_id_ok P i = (utf8_valid (inner i) \<and> from_string P (inner i) = Ok i)"

lemma from_string_Ok_iff:
  "from_string P s = Ok i \<longleftrightarrow>
     length s = 40 \<and> list_all (is_alphanumeric P) (chars s) \<and> i = PeerId s"
  by (auto simp: from_string_def)

lemma from_string_not_Panic [simp]: "from_string P s \<noteq> Panic"
  by (simp add: from_string_def)

lemma peer_id_ok_length: "peer_id_ok P i \<Longrightarrow> length (id_bytes i) = 40"
  by (auto simp: peer_id_ok_def from_string_Ok_iff id_bytes_def)

lemma peer_id_ok_from_string: "peer_id_ok P i \<Longrightarrow> from_string P (id_bytes i) = Ok i"
  by (simp add: peer_id_ok_def id_bytes_def)

lemma peer_id_ok_utf8: "peer_id_ok P i \<Longrightarrow> from_utf8 (id_bytes i) = Ok (id_bytes i)"
  by (simp add: peer_id_ok_def id_bytes_def)

text \<open>Forty ASCII letters and digits are a well-formed identifier on every platform.\<close>

definition ascii_alnum :: "bytes \<Rightarrow> bool" where
  "ascii_alnum s = list_all (\<lambda>b. ascii_digit (unat b) \<or> ascii_alpha (unat b)) s"

lemma ascii_alnum_ascii: "ascii_alnum s \<Longrightarrow> is_ascii s"
  by (auto simp: ascii_alnum_def is_ascii_def list_all_iff ascii_digit_def ascii_alpha_def)

lemma ascii_alnum_alphanumeric: "ascii_alnum s \<Longrightarrow> list_all (is_alphanumeric P) (chars s)"
  by (auto simp: ascii_chars [OF ascii_alnum_ascii] ascii_alnum_def list_all_iff
      is_alphanumeric_def ascii_digit_def ascii_alpha_def)

lemma ascii_alnum_peer_id: "ascii_alnum s \<Longrightarrow> length s = 40 \<Longrightarrow> peer_id_ok P (PeerId s)"
  by (simp add: peer_id_ok_def from_string_Ok_iff ascii_alnum_alphanumeric ascii_alnum_ascii)

lemma ascii_alnum_hex: "ascii_alnum (concat (map hex_byte bs))"
  by (auto simp: ascii_alnum_def hex_byte_def list_all_iff digit_char_alnum)

context ring_crate
begin

lemma from_cert_length: "length (inner (from_cert R cert)) = 64"
proof -
  have "length (concat (map hex_byte bs)) = 2 * length bs" for bs
    by (induction bs) simp_all
  then show ?thesis by (simp add: from_cert_def digest_length)
qed

lemma from_cert_rejected: "from_string P (inner (from_cert R cert)) = Err IdLength"
  by (simp add: from_string_def from_cert_length)

end

subsection \<open>Identities\<close>

record identity =
  certificate :: bytes
  private_key :: bytes

record certificate_params =
  common_name :: string
  subject_alt_names :: "ip_addr list"

definition CERTIFICATE_COMMON_NAME :: string where
  "CERTIFICATE_COMMON_NAME = ''fd-p2p-identity''"

text \<open>
  \<open>Identity::new\<close>. The crate \<^verbatim>\<open>rcgen\<close> is a parameter: \<open>gen params\<close> is the certificate it generates
  for the parameters, with \<open>der\<close> and \<open>key_der\<close> its two serialisations.
\<close>

definition identity_new ::
    "(certificate_params \<Rightarrow> ('c, string) outcome) \<Rightarrow> ('c \<Rightarrow> (bytes, string) outcome) \<Rightarrow>
     ('c \<Rightarrow> bytes) \<Rightarrow> (identity, 'e) outcome" where
  "identity_new gen der key_der =
     (let parameters = \<lparr>common_name = CERTIFICATE_COMMON_NAME,
                        subject_alt_names = [IpV4 LOCALHOST]\<rparr>
      in bind_o (unwrap (gen parameters)) (\<lambda>cert.
         bind_o (unwrap (der cert)) (\<lambda>d.
         Ok \<lparr>certificate = d, private_key = key_der cert\<rparr>)))"

definition from_raw :: "bytes \<Rightarrow> bytes \<Rightarrow> identity" where
  "from_raw cert key = \<lparr>certificate = cert, private_key = key\<rparr>"

definition to_raw :: "identity \<Rightarrow> bytes \<times> bytes" where
  "to_raw i = (certificate i, private_key i)"

definition into_rustls :: "identity \<Rightarrow> bytes \<times> bytes" where
  "into_rustls i = (certificate i, private_key i)"

subsection \<open>Device types\<close>

datatype device_type =
  AppleiPhone | AppleiPad | AndroidDevice | Windows10Desktop | LinuxDevice | WindowsLaptop

fun device_type_code :: "device_type \<Rightarrow> u16" where
  "device_type_code AppleiPhone = 6"
| "device_type_code AppleiPad = 7"
| "device_type_code AndroidDevice = 8"
| "device_type_code Windows10Desktop = 9"
| "device_type_code LinuxDevice = 12"
| "device_type_code WindowsLaptop = 15"

text \<open>\<open>DeviceType::try_from_primitive\<close>, as derived from the discriminants.\<close>

definition device_type_try_from :: "u16 \<Rightarrow> (device_type, nat) outcome" where
  "device_type_try_from n =
     (if n = 6 then Ok AppleiPhone
      else if n = 7 then Ok AppleiPad
      else if n = 8 then Ok AndroidDevice
      else if n = 9 then Ok Windows10Desktop
      else if n = 12 then Ok LinuxDevice
      else if n = 15 then Ok WindowsLaptop
      else Err (unat n))"

lemma device_type_try_from_code [simp]: "device_type_try_from (device_type_code t) = Ok t"
  by (cases t) (simp_all add: device_type_try_from_def)

lemma device_type_try_from_Ok_iff: "device_type_try_from n = Ok t \<longleftrightarrow> n = device_type_code t"
  by (cases t) (auto simp: device_type_try_from_def)

subsection \<open>Metadata, candidates, connected peers\<close>

record peer_metadata =
  pm_name :: rstring
  pm_typ :: device_type
  pm_id :: peer_id
  pm_addr :: socket_addr

text \<open>\<open>impl Hash for PeerMetadata\<close> feeds the hasher with the identifier only.\<close>

definition metadata_hash :: "(peer_id \<Rightarrow> 'h \<Rightarrow> 'h) \<Rightarrow> peer_metadata \<Rightarrow> 'h \<Rightarrow> 'h" where
  "metadata_hash hash_id m state = hash_id (pm_id m) state"

record 't peer_candidate =
  pc_id :: peer_id
  pc_metadata :: peer_metadata
  pc_addrs :: "socket_addr set"
  pc_auth :: "'t pairing_authenticator"

definition candidate_new :: "peer_metadata \<Rightarrow> 't pairing_authenticator \<Rightarrow> 't peer_candidate" where
  "candidate_new metadata auth =
     \<lparr>pc_id = pm_id metadata, pc_metadata = metadata, pc_addrs = {}, pc_auth = auth\<rparr>"

datatype connection_type = Server | Client

text \<open>A connection is known to the model by its number.\<close>

type_synonym conn = nat

record peer =
  p_id :: peer_id
  p_conn_type :: connection_type
  p_metadata :: peer_metadata
  p_conn :: conn

subsection \<open>Events\<close>

datatype p2p_event =
    PeerDiscovered peer_metadata
  | PeerConnected peer
  | PeerDisconnected peer_id

datatype discovery_event = PresenceRequest | PresenceResponse peer_metadata

text \<open>\<open>enum InternalEvent {}\<close> has no values: no message is ever received on that channel.\<close>

end
