(* ===== verification/Proto.thy ===== *)
theory Proto
  imports Peer
begin

text \<open>
  The wire protocol (\<^verbatim>\<open>crate/p2p/src/proto.rs\<close> and the frame lengths of \<^verbatim>\<open>event.rs\<close>): the header codec, the
  codec of the discovery messages and the codec of the connection messages. A decoder takes the
  receive buffer and returns what \<open>decode\<close> returns together with the buffer it leaves; an encoder
  appends to the send buffer. The byte layouts of \<^verbatim>\<open>doc/Protocol.md\<close> are the specification: the
  lemmas show that the encoders write exactly these layouts and that the decoders read them back.
\<close>

subsection \<open>Headers\<close>

definition SIGNATURE :: bytes where
  "SIGNATURE = [0x40, 0x40]"

record header =
  h_length :: u16
  h_message_type :: message_type

text \<open>\<open>impl Frame for Header\<close>: signature, length, type.\<close>

definition header_len :: u16 where
  "header_len = 2 + 2 + 1"

definition header_new :: "platform \<Rightarrow> message_type \<Rightarrow> u16 \<Rightarrow> (header, 'e) outcome" where
  "header_new P typ len =
     bind_o (add_u16 (overflow_checks P) len header_len)
       (\<lambda>l. Ok \<lparr>h_length = l, h_message_type = typ\<rparr>)"

definition header_decode :: "platform \<Rightarrow> (bytes, header option, parse_error) call" where
  "header_decode P src =
    (if length src < 5 then (Ok None, src)
     else case slice_get 0 2 src of None \<Rightarrow> (Ok None, src) | Some signature_raw \<Rightarrow>
       if signature_raw \<noteq> SIGNATURE then (Err NotAPacket, src)
       else case slice_get 2 4 src of None \<Rightarrow> (Ok None, src) | Some len_bytes \<Rightarrow>
         case read_u16_be P len_bytes of None \<Rightarrow> (Ok None, src) | Some message_length \<Rightarrow>
           if length src < unat message_length then (Ok None, src)
           else
             sbind (spanic (advance P 4)) (\<lambda>_.
             sbind (spanic (get_u8 P)) (\<lambda>message_type_raw.
             sbind (slift (map_err parse_error_of_primitive (message_type_try_from message_type_raw)))
               (\<lambda>message_type.
             sret (Some \<lparr>h_length = message_length, h_message_type = message_type\<rparr>)))) src)"

definition header_encode :: "platform \<Rightarrow> header \<Rightarrow> (bytes, unit, parse_error) call" where
  "header_encode P item =
     sbind (smodify (put P SIGNATURE)) (\<lambda>_.
     sbind (smodify (put_u16 P (h_length item))) (\<lambda>_.
     smodify (put_u8 P (message_type_code (h_message_type item)))))"

subsection \<open>Connection messages\<close>

datatype connection =
    Request peer_id bytes
  | Response bytes
  | CompleteRequest
  | CompleteResponse
  | Failure u32

fun connection_len :: "connection \<Rightarrow> u16" where
  "connection_len (Request _ _) = 1 + 40 + 32"
| "connection_len (Response _) = 1 + 32"
| "connection_len CompleteRequest = 1"
| "connection_len CompleteResponse = 1"
| "connection_len (Failure _) = 1 + 4"

text \<open>What the decoder does after the header: the \<open>match\<close> on the connection message type.\<close>

definition connection_body :: "platform \<Rightarrow> (bytes, connection option, parse_error) call" where
  "connection_body P =
     sbind (spanic (get_u8 P)) (\<lambda>x.
       if x = 0 then
         sbind (spanic (split_to P 40)) (\<lambda>peer_id_raw.
         sbind (slift (unwrap (from_utf8 peer_id_raw))) (\<lambda>peer_id_str.
         sbind (slift (unwrap (from_string P peer_id_str))) (\<lambda>peer_id.
         sbind (spanic (split_to P 32)) (\<lambda>hmac.
         sret (Some (Request peer_id hmac))))))
       else if x = 1 then
         sbind (spanic (split_to P 32)) (\<lambda>hmac. sret (Some (Response hmac)))
       else if x = 2 then sret (Some CompleteRequest)
       else if x = 3 then sret (Some CompleteResponse)
       else if x = 4 then
         sbind (spanic (get_u32 P)) (\<lambda>code. sret (Some (Failure code)))
       else serr (ParseEnum (unat x)))"

definition connection_decode :: "platform \<Rightarrow> (bytes, connection option, parse_error) call" where
  "connection_decode P =
     sbind (header_decode P) (\<lambda>header_opt. case header_opt of None \<Rightarrow> sret None | Some header \<Rightarrow>
     if h_message_type header \<noteq> Connect then serr (MsgType (h_message_type header))
     else connection_body P)"

definition connection_encode :: "platform \<Rightarrow> connection \<Rightarrow> (bytes, unit, parse_error) call" where
  "connection_encode P item =
     sbind (slift (header_new P Connect (connection_len item))) (\<lambda>header.
     sbind (header_encode P header) (\<lambda>_.
     case item of
       Request pid tag \<Rightarrow>
         sbind (smodify (put_u8 P 0)) (\<lambda>_.
         sbind (smodify (put P (id_bytes pid))) (\<lambda>_.
         smodify (put P tag)))
     | Response tag \<Rightarrow>
         sbind (smodify (put_u8 P 1)) (\<lambda>_.
         smodify (put P tag))
     | CompleteRequest \<Rightarrow> smodify (put_u8 P 2)
     | CompleteResponse \<Rightarrow> smodify (put_u8 P 3)
     | Failure code \<Rightarrow>
         sbind (smodify (put_u8 P 4)) (\<lambda>_.
         smodify (put_u32 P code))))"

subsection \<open>Discovery messages\<close>

text \<open>
  \<open>impl Frame for DiscoveryEvent\<close>: the sum is evaluated from the left, and each conversion to
  \<open>u16\<close> panics on a length that does not fit.
\<close>

fun discovery_len :: "platform \<Rightarrow> discovery_event \<Rightarrow> (u16, 'e) outcome" where
  "discovery_len P PresenceRequest = Ok 1"
| "discovery_len P (PresenceResponse meta) =
     bind_o (unwrap (u16_try_from (length (pm_name meta)))) (\<lambda>name_len.
     bind_o (add_u16 (overflow_checks P) (1 + 2 + 2) name_len) (\<lambda>a.
     bind_o (add_u16 (overflow_checks P) a 40) (\<lambda>b.
     bind_o (add_u16 (overflow_checks P) b 2) (\<lambda>c.
     bind_o (unwrap (u16_try_from (length (show_socket_addr (pm_addr meta))))) (\<lambda>addr_len.
     add_u16 (overflow_checks P) c addr_len)))))"

text \<open>What the decoder does after the header: the \<open>match\<close> on the discovery message type.\<close>

definition discovery_body :: "platform \<Rightarrow> (bytes, discovery_event option, parse_error) call" where
  "discovery_body P =
       sbind (spanic (get_u8 P)) (\<lambda>x.
       if x = 0 then sret (Some PresenceRequest)
       else if x = 1 then
         sbind (spanic (get_u16 P)) (\<lambda>device_type_raw.
         sbind (spanic (get_u16 P)) (\<lambda>device_name_length.
         sbind (spanic (split_to P (unat device_name_length))) (\<lambda>device_name_raw.
         sbind (slift (unwrap (from_utf8 device_name_raw))) (\<lambda>device_name.
         sbind (spanic (split_to P 40)) (\<lambda>device_id_raw.
         sbind (slift (unwrap (from_utf8 device_id_raw))) (\<lambda>device_id.
         sbind (slift (map_err ParseId (from_string P device_id))) (\<lambda>pid.
         sbind (spanic (get_u16 P)) (\<lambda>device_addr_length.
         sbind (spanic (split_to P (unat device_addr_length))) (\<lambda>device_addr_bytes.
         sbind (slift (unwrap (from_utf8 device_addr_bytes))) (\<lambda>device_addr_str.
         sbind (slift (map_err (\<lambda>_. ParseAddr) (parse_socket_addr device_addr_str))) (\<lambda>device_addr.
         sbind (slift (map_err parse_error_of_primitive (device_type_try_from device_type_raw)))
           (\<lambda>device_type.
         sret (Some (PresenceResponse
           \<lparr>pm_name = device_name, pm_typ = device_type, pm_id = pid, pm_addr = device_addr\<rparr>))
         ))))))))))))
       else serr (ParseEnum (unat x)))"

definition discovery_decode :: "platform \<Rightarrow> (bytes, discovery_event option, parse_error) call" where
  "discovery_decode P =
     sbind (header_decode P) (\<lambda>header_opt. case header_opt of None \<Rightarrow> sret None | Some header \<Rightarrow>
     if h_message_type header \<noteq> Discovery then serr (MsgType (h_message_type header))
     else discovery_body P)"

definition discovery_encode :: "platform \<Rightarrow> discovery_event \<Rightarrow> (bytes, unit, parse_error) call" where
  "discovery_encode P item =
     sbind (slift (discovery_len P item)) (\<lambda>len.
     sbind (slift (header_new P Discovery len)) (\<lambda>header.
     sbind (header_encode P header) (\<lambda>_.
     case item of
       PresenceRequest \<Rightarrow> smodify (put_u8 P 0)
     | PresenceResponse metadata \<Rightarrow>
         sbind (smodify (put_u8 P 1)) (\<lambda>_.
         sbind (smodify (put_u16 P (device_type_code (pm_typ metadata)))) (\<lambda>_.
         sbind (slift (unwrap (u16_try_from (length (pm_name metadata))))) (\<lambda>name_len.
         sbind (smodify (put_u16 P name_len)) (\<lambda>_.
         sbind (smodify (put P (pm_name metadata))) (\<lambda>_.
         sbind (smodify (put P (id_bytes (pm_id metadata)))) (\<lambda>_.
         let addr = show_socket_addr (pm_addr metadata) in
         sbind (slift (unwrap (u16_try_from (length addr)))) (\<lambda>addr_len.
         sbind (smodify (put_u16 P addr_len)) (\<lambda>_.
         smodify (put P addr)))))))))))) "

subsection \<open>Draining a buffer\<close>

text \<open>
  \<open>consume\<close> of the codec tests: decode until there is no complete frame left. An error or a panic
  of the decoder panics the loop (\<open>unwrap\<close>). The loop has no bound of its own, so not returning is
  the outer \<open>None\<close>.
\<close>

partial_function (option) consume ::
    "(bytes, 'a option, parse_error) call \<Rightarrow> bytes \<Rightarrow> 'a list \<Rightarrow>
     (('a list, unit) outcome \<times> bytes) option" where
  "consume dec src acc =
     (case dec src of
        (Ok None, s) \<Rightarrow> Some (Ok acc, s)
      | (Ok (Some a), s) \<Rightarrow> consume dec s (acc @ [a])
      | (Err _, s) \<Rightarrow> Some (Panic, s)
      | (Panic, s) \<Rightarrow> Some (Panic, s))"

subsection \<open>Codecs over a byte stream\<close>

text \<open>
  What a client of a codec relies on, whatever the messages: a whole frame decodes to its message
  and leaves what follows; an incomplete frame leaves the buffer alone and asks for more.
\<close>

locale frame_codec =
  fixes dec :: "(bytes, 'm option, parse_error) call"
    and wire :: "'m \<Rightarrow> bytes"
    and ok :: "'m \<Rightarrow> bool"
  assumes dec_wire: "ok m \<Longrightarrow> dec (wire m @ rest) = (Ok (Some m), rest)"
    and dec_prefix: "ok m \<Longrightarrow> wire m = src @ missing \<Longrightarrow> missing \<noteq> [] \<Longrightarrow> dec src = (Ok None, src)"
    and dec_empty: "dec [] = (Ok None, [])"
    and wire_not_Nil: "ok m \<Longrightarrow> wire m \<noteq> []"
begin

lemma consume_part:
  "dec part = (Ok None, part) \<Longrightarrow> list_all ok ms \<Longrightarrow>
   consume dec (concat (map wire ms) @ part) acc = Some (Ok (acc @ ms), part)"
proof (induction ms arbitrary: acc)
  case Nil
  then show ?case by (subst consume.simps) simp
next
  case (Cons m ms)
  then have "dec (wire m @ concat (map wire ms) @ part) = (Ok (Some m), concat (map wire ms) @ part)"
    by (simp add: dec_wire)
  with Cons show ?case by (subst consume.simps) simp
qed

text \<open>A buffer that holds the first bytes of a stream of frames: whole frames and an incomplete one.\<close>

lemma stream_split:
  "list_all ok ms \<Longrightarrow> concat (map wire ms) = buf @ later \<Longrightarrow>
   \<exists>ns rs part. ms = ns @ rs \<and> buf = concat (map wire ns) @ part \<and> dec part = (Ok None, part) \<and>
     part @ later = concat (map wire rs)"
proof (induction ms arbitrary: buf)
  case Nil
  then show ?case by (simp add: dec_empty)
next
  case (Cons m ms)
  show ?case
  proof (cases "length (wire m) \<le> length buf")
    case True
    have eq: "wire m @ concat (map wire ms) = buf @ later"
      using Cons.prems by simp
    have "take (length (wire m)) buf = wire m"
      using True arg_cong [OF eq, of "take (length (wire m))"] by simp
    then obtain b where b: "buf = wire m @ b"
      by (metis append_take_drop_id)
    with eq have "concat (map wire ms) = b @ later" by simp
    with Cons.IH [of b] Cons.prems obtain ns rs part where "ms = ns @ rs"
      "b = concat (map wire ns) @ part" "dec part = (Ok None, part)"
      "part @ later = concat (map wire rs)"
      by auto
    with b show ?thesis by (intro exI [of _ "m # ns"] exI [of _ rs] exI [of _ part]) auto
  next
    case False
    have eq: "wire m @ concat (map wire ms) = buf @ later"
      using Cons.prems by simp
    have "take (length buf) (wire m) = buf"
      using False arg_cong [OF eq, of "take (length buf)"] by simp
    then obtain r where r: "wire m = buf @ r"
      by (metis append_take_drop_id)
    with False have "r \<noteq> []" by auto
    with r Cons.prems have "dec buf = (Ok None, buf)"
      by (intro dec_prefix [of m]) auto
    with Cons.prems show ?thesis
      by (intro exI [of _ "[]"] exI [of _ "m # ms"] exI [of _ buf]) simp
  qed
qed

end

text \<open>Feeding a decoder chunk by chunk, as a framed transport does: append, then drain.\<close>

fun feed :: "(bytes, 'm option, parse_error) call \<Rightarrow> bytes \<Rightarrow> bytes list \<Rightarrow> 'm list \<Rightarrow>
    (('m list, unit) outcome \<times> bytes) option" where
  "feed dec buf [] acc = Some (Ok acc, buf)"
| "feed dec buf (c # cs) acc =
     (case consume dec (buf @ c) acc of
        Some (Ok acc', buf') \<Rightarrow> feed dec buf' cs acc'
      | x \<Rightarrow> x)"

context frame_codec
begin

lemma feed_stream:
  "list_all ok ms \<Longrightarrow> buf @ concat cs = concat (map wire ms) \<Longrightarrow> dec buf = (Ok None, buf) \<Longrightarrow>
   feed dec buf cs acc = Some (Ok (acc @ ms), [])"
proof (induction cs arbitrary: buf ms acc)
  case Nil
  then have "consume dec (concat (map wire ms) @ []) [] = Some (Ok ([] @ ms), [])"
    by (intro consume_part) (simp_all add: dec_empty)
  moreover have "consume dec buf [] = Some (Ok [], buf)"
    using Nil.prems by (subst consume.simps) simp
  ultimately show ?case
    using Nil.prems by simp
next
  case (Cons c cs)
  then obtain ns rs part where s: "ms = ns @ rs" "buf @ c = concat (map wire ns) @ part"
    "dec part = (Ok None, part)" "part @ concat cs = concat (map wire rs)"
    using stream_split [of ms "buf @ c" "concat cs"] by auto
  then have "consume dec (buf @ c) acc = Some (Ok (acc @ ns), part)"
    using Cons.prems consume_part [of part ns acc] by simp
  moreover have "feed dec part cs (acc @ ns) = Some (Ok ((acc @ ns) @ rs), [])"
    using s Cons.prems by (intro Cons.IH) auto
  ultimately show ?case using s by simp
qed

end

subsection \<open>The documented layouts\<close>

text \<open>
  \<^verbatim>\<open>doc/Protocol.md\<close>: a message is the signature, the length of the whole message, the message type
  and the payload.
\<close>

definition frame_wire :: "message_type \<Rightarrow> bytes \<Rightarrow> bytes" where
  "frame_wire t payload =
     SIGNATURE @ be16_bytes (u16_of (5 + length payload)) @ message_type_code t # payload"

fun connection_payload :: "connection \<Rightarrow> bytes" where
  "connection_payload (Request pid tag) = 0 # id_bytes pid @ tag"
| "connection_payload (Response tag) = 1 # tag"
| "connection_payload CompleteRequest = [2]"
| "connection_payload CompleteResponse = [3]"
| "connection_payload (Failure code) = 4 # be32_bytes code"

fun discovery_payload :: "discovery_event \<Rightarrow> bytes" where
  "discovery_payload PresenceRequest = [0]"
| "discovery_payload (PresenceResponse m) =
     1 # be16_bytes (device_type_code (pm_typ m)) @
     be16_bytes (u16_of (length (pm_name m))) @ pm_name m @
     id_bytes (pm_id m) @
     be16_bytes (u16_of (length (show_socket_addr (pm_addr m)))) @ show_socket_addr (pm_addr m)"

text \<open>Messages that fit the layouts.\<close>

fun connection_ok :: "platform \<Rightarrow> connection \<Rightarrow> bool" where
  "connection_ok P (Request pid tag) = (peer_id_ok P pid \<and> length tag = 32)"
| "connection_ok P (Response tag) = (length tag = 32)"
| "connection_ok P _ = True"

fun discovery_ok :: "platform \<Rightarrow> discovery_event \<Rightarrow> bool" where
  "discovery_ok P PresenceRequest = True"
| "discovery_ok P (PresenceResponse m) =
     (utf8_valid (pm_name m) \<and> peer_id_ok P (pm_id m) \<and> printable (pm_addr m) \<and>
      length (discovery_payload (PresenceResponse m)) + 5 < 65536)"

lemma SIGNATURE_length [simp]: "length SIGNATURE = 2"
  by (simp add: SIGNATURE_def)

lemma connection_payload_length:
  "connection_ok P c \<Longrightarrow> length (connection_payload c) = unat (connection_len c)"
  by (cases c) (auto dest: peer_id_ok_length)

lemma connection_payload_small: "connection_ok P c \<Longrightarrow> length (connection_payload c) \<le> 73"
  by (cases c) (auto dest: peer_id_ok_length)

lemma discovery_payload_length:
  "discovery_ok P (PresenceResponse m) \<Longrightarrow> length (discovery_payload (PresenceResponse m)) =
     47 + length (pm_name m) + length (show_socket_addr (pm_addr m))"
  by (auto dest: peer_id_ok_length)

lemma frame_wire_length [simp]: "length (frame_wire t p) = 5 + length p"
  by (simp add: frame_wire_def)

lemma frame_wire_not_Nil [simp]: "frame_wire t p \<noteq> []"
  by (simp add: frame_wire_def)

subsection \<open>Headers, on every input\<close>

text \<open>An input of at least five bytes that starts with the signature.\<close>

lemma header_split:
  assumes "5 \<le> length src" and "take 2 src = SIGNATURE"
  obtains l c s where "src = SIGNATURE @ be16_bytes l @ c # s"
proof -
  obtain a b d e c s where src: "src = a # b # d # e # c # s"
    using assms(1) by (auto simp: numeral_eq_Suc Suc_le_length_iff)
  moreover have "[d, e] = be16_bytes (be16 d e)" by simp
  ultimately show thesis
    using assms(2) that [of "be16 d e" c s] by (simp add: SIGNATURE_def)
qed

context bytes_crate
begin

lemmas id_facts =
  peer_id_ok_length [where P = P] peer_id_ok_from_string [where P = P] peer_id_ok_utf8 [where P = P]

lemma header_decode_frame:
  "header_decode P (SIGNATURE @ be16_bytes l @ c # s) =
     (if length s + 5 < unat l then (Ok None, SIGNATURE @ be16_bytes l @ c # s)
      else case message_type_try_from c of
        Ok t \<Rightarrow> (Ok (Some \<lparr>h_length = l, h_message_type = t\<rparr>), s)
      | Err n \<Rightarrow> (Err (ParseEnum n), s)
      | Panic \<Rightarrow> (Panic, s))"
  by (cases "message_type_try_from c")
    (simp_all add: header_decode_def slice_get_def SIGNATURE_def be16_bytes_def buffer_laws
      outcome_simps parse_error_of_primitive_def)

lemma header_decode_short: "length src < 5 \<Longrightarrow> header_decode P src = (Ok None, src)"
  by (simp add: header_decode_def)

lemma header_decode_not_a_packet:
  "5 \<le> length src \<Longrightarrow> take 2 src \<noteq> SIGNATURE \<Longrightarrow> header_decode P src = (Err NotAPacket, src)"
  by (simp add: header_decode_def slice_get_def)

lemma header_decode_Some_iff:
  "header_decode P src = (Ok (Some h), s) \<longleftrightarrow>
     src = SIGNATURE @ be16_bytes (h_length h) @ message_type_code (h_message_type h) # s \<and>
     unat (h_length h) \<le> length src"
proof (cases "5 \<le> length src \<and> take 2 src = SIGNATURE")
  case True
  then obtain l c t where src: "src = SIGNATURE @ be16_bytes l @ c # t"
    using header_split by metis
  show ?thesis
    unfolding src header_decode_frame
    by (cases h) (auto simp: not_less split: outcome.splits
        dest: message_type_try_from_Ok_iff [THEN iffD1])
next
  case False
  then have "header_decode P src \<noteq> (Ok (Some h), s)"
    by (cases "length src < 5") (auto simp: header_decode_short header_decode_not_a_packet)
  moreover have "src \<noteq> SIGNATURE @ be16_bytes (h_length h) @ message_type_code (h_message_type h) # s"
    using False by auto
  ultimately show ?thesis by blast
qed

text \<open>A buffer that does not hold a whole frame yet is left as it is.\<close>

lemma header_decode_None: "header_decode P src = (Ok None, s) \<Longrightarrow> s = src"
proof (cases "5 \<le> length src \<and> take 2 src = SIGNATURE")
  case True
  assume d: "header_decode P src = (Ok None, s)"
  obtain l c t where src: "src = SIGNATURE @ be16_bytes l @ c # t"
    using True header_split by metis
  from d show ?thesis
    unfolding src header_decode_frame by (auto split: if_splits outcome.splits)
next
  case False
  assume "header_decode P src = (Ok None, s)"
  with False show ?thesis
    by (cases "length src < 5") (auto simp: header_decode_short header_decode_not_a_packet)
qed

lemma header_decode_prefix:
  assumes "5 + length p < 65536" and "frame_wire t p = src @ missing" and "missing \<noteq> []"
  shows "header_decode P src = (Ok None, src)"
proof (cases "length src < 5")
  case True
  then show ?thesis by (rule header_decode_short)
next
  case False
  have "length (frame_wire t p) = length src + length missing"
    by (simp only: assms(2) length_append)
  with assms(3) have len: "length src < 5 + length p"
    by (cases missing) simp_all
  have "take 2 src = take 2 (frame_wire t p)"
    using False by (simp add: assms(2))
  then obtain l c s where src: "src = SIGNATURE @ be16_bytes l @ c # s"
    using False header_split [of src] by (auto simp: frame_wire_def)
  with assms(2) have "l = u16_of (5 + length p)"
    by (auto simp: frame_wire_def)
  with assms(1) len show ?thesis
    by (simp add: src header_decode_frame)
qed

text \<open>Both codecs ask for more input only when the header does.\<close>

lemma codec_None:
  assumes "sbind (header_decode P) (\<lambda>h. case h of None \<Rightarrow> sret None | Some x \<Rightarrow> F x) src = (Ok None, s)"
    and "\<And>x t. F x t \<noteq> (Ok None, s)"
  shows "s = src"
proof -
  obtain h t where h: "header_decode P src = (Ok h, t)"
    and k: "(case h of None \<Rightarrow> sret None | Some x \<Rightarrow> F x) t = (Ok None, s)"
    using assms(1) by (auto simp: sbind_Ok_iff)
  show ?thesis
    using h k assms(2) by (cases h) (auto simp: outcome_simps dest: header_decode_None)
qed

lemma header_encode_append:
  "header_encode P h dst =
     (Ok (), dst @ SIGNATURE @ be16_bytes (h_length h) @ [message_type_code (h_message_type h)])"
  by (simp add: header_encode_def outcome_simps buffer_laws)

subsection \<open>Connection messages, on every input\<close>

text \<open>
  The connection decoder returns a message exactly when the input starts with the signature, some
  length that the buffer covers, the type of a connection message and the layout of the message.
\<close>

lemma connection_decode_Some_iff:
  "connection_decode P src = (Ok (Some c), rest) \<longleftrightarrow>
     (\<exists>l. src = SIGNATURE @ be16_bytes l @ message_type_code Connect # connection_payload c @ rest \<and>
          unat l \<le> length src) \<and> connection_ok P c"
proof
  assume "connection_decode P src = (Ok (Some c), rest)"
  then obtain h x t u where h: "header_decode P src = (Ok (Some h), t)"
    and ty: "h_message_type h = Connect" and t: "t = x # u"
    and body: "connection_decode P src = (Ok (Some c), rest)"
    by (auto simp: connection_decode_def connection_body_def sbind_Ok_iff spanic_Ok_iff get_u8_Some_iff outcome_simps
        split: option.splits if_splits)
  have src: "src = SIGNATURE @ be16_bytes (h_length h) @ message_type_code Connect # t"
    and len: "unat (h_length h) \<le> length src"
    using h ty unfolding header_decode_Some_iff by auto
  have "t = connection_payload c @ rest \<and> connection_ok P c"
    using body h ty
    by (auto simp: connection_decode_def connection_body_def sbind_Ok_iff spanic_Ok_iff get_u8_Some_iff
        split_to_Some_iff get_u32_Some_iff outcome_simps from_string_Ok_iff peer_id_ok_def
        id_bytes_def split: if_splits)
  with src len show "(\<exists>l. src = SIGNATURE @ be16_bytes l @ message_type_code Connect #
      connection_payload c @ rest \<and> unat l \<le> length src) \<and> connection_ok P c"
    by blast
next
  assume "(\<exists>l. src = SIGNATURE @ be16_bytes l @ message_type_code Connect #
      connection_payload c @ rest \<and> unat l \<le> length src) \<and> connection_ok P c"
  then obtain l where src: "src = SIGNATURE @ be16_bytes l @ message_type_code Connect #
      connection_payload c @ rest" and len: "unat l \<le> length src" and ok: "connection_ok P c"
    by blast
  have "header_decode P src =
      (Ok (Some \<lparr>h_length = l, h_message_type = Connect\<rparr>), connection_payload c @ rest)"
    unfolding header_decode_Some_iff using src len by simp
  with ok show "connection_decode P src = (Ok (Some c), rest)"
    by (cases c)
      (simp_all add: connection_decode_def connection_body_def outcome_simps wire_simps id_facts)
qed

lemma connection_decode_None: "connection_decode P src = (Ok None, s) \<Longrightarrow> s = src"
  unfolding connection_decode_def connection_body_def
  by (erule codec_None) (auto simp: sbind_Ok_iff outcome_simps split: if_splits)

lemma connection_decode_prefix:
  assumes "connection_ok P c" and "frame_wire Connect (connection_payload c) = src @ missing"
    and "missing \<noteq> []"
  shows "connection_decode P src = (Ok None, src)"
proof -
  have "header_decode P src = (Ok None, src)"
    using assms connection_payload_small [OF assms(1)] by (intro header_decode_prefix) auto
  then show ?thesis by (simp add: connection_decode_def connection_body_def outcome_simps)
qed

lemma connection_decode_wire:
  assumes "connection_ok P c"
  shows "connection_decode P (frame_wire Connect (connection_payload c) @ rest) = (Ok (Some c), rest)"
  unfolding connection_decode_Some_iff frame_wire_def
  using assms connection_payload_small [OF assms] by (intro conjI exI) auto

lemma connection_encode_wire:
  assumes "connection_ok P c"
  shows "connection_encode P c dst = (Ok (), dst @ frame_wire Connect (connection_payload c))"
proof -
  have n: "unat (connection_len c) = length (connection_payload c)"
    using connection_payload_length [OF assms] by simp
  have l: "connection_len c + header_len = u16_of (5 + length (connection_payload c))"
    unfolding n [symmetric] by (simp add: header_len_def u16_of_def)
  have h: "(header_new P Connect (connection_len c) :: (header, parse_error) outcome) =
      Ok \<lparr>h_length = u16_of (5 + length (connection_payload c)), h_message_type = Connect\<rparr>"
    unfolding header_new_def l [symmetric]
    by (subst add_u16_fits) (use connection_payload_small [OF assms] n in
        \<open>simp_all add: header_len_def\<close>)
  show ?thesis
    unfolding connection_encode_def h frame_wire_def
    by (cases c) (simp_all add: outcome_simps header_encode_append buffer_laws)
qed

subsection \<open>Discovery messages, on every input\<close>

lemma discovery_decode_None: "discovery_decode P src = (Ok None, s) \<Longrightarrow> s = src"
  unfolding discovery_decode_def discovery_body_def
  by (erule codec_None) (auto simp: sbind_Ok_iff outcome_simps split: if_splits)

lemma discovery_small:
  assumes "discovery_ok P e"
  shows "5 + length (discovery_payload e) < 65536"
  using assms by (cases e) simp_all

lemma discovery_decode_prefix:
  assumes "discovery_ok P e" and "frame_wire Discovery (discovery_payload e) = src @ missing"
    and "missing \<noteq> []"
  shows "discovery_decode P src = (Ok None, src)"
proof -
  have "header_decode P src = (Ok None, src)"
    using assms discovery_small [OF assms(1)] by (intro header_decode_prefix)
  then show ?thesis by (simp add: discovery_decode_def discovery_body_def outcome_simps)
qed

lemma discovery_decode_wire:
  assumes "discovery_ok P e"
  shows "discovery_decode P (frame_wire Discovery (discovery_payload e) @ rest) = (Ok (Some e), rest)"
proof -
  note small = discovery_small [OF assms]
  have h: "header_decode P (frame_wire Discovery (discovery_payload e) @ rest) =
      (Ok (Some \<lparr>h_length = u16_of (5 + length (discovery_payload e)), h_message_type = Discovery\<rparr>),
       discovery_payload e @ rest)"
    unfolding header_decode_Some_iff using small by (simp add: frame_wire_def)
  show ?thesis
  proof (cases e)
    case PresenceRequest
    with h show ?thesis by (simp add: discovery_decode_def discovery_body_def outcome_simps wire_simps)
  next
    case (PresenceResponse m)
    then have ok: "utf8_valid (pm_name m)" "peer_id_ok P (pm_id m)" "printable (pm_addr m)"
      "length (pm_name m) < 65536" "length (show_socket_addr (pm_addr m)) < 65536"
      using assms small by auto
    have "from_utf8 (show_socket_addr (pm_addr m)) = Ok (show_socket_addr (pm_addr m))"
      by simp
    with ok show ?thesis
      using h unfolding PresenceResponse
      by (simp add: discovery_decode_def discovery_body_def outcome_simps wire_simps id_facts from_utf8_valid
          parse_show_socket_addr)
  qed
qed

lemma decode_empty: "connection_decode P [] = (Ok None, [])" "discovery_decode P [] = (Ok None, [])"
  by (simp_all add: connection_decode_def connection_body_def discovery_decode_def outcome_simps header_decode_short)

end

sublocale bytes_crate \<subseteq> conn: frame_codec "connection_decode P"
    "\<lambda>c. frame_wire Connect (connection_payload c)" "connection_ok P"
  by unfold_locales
    (simp_all add: connection_decode_wire connection_decode_prefix decode_empty)

sublocale bytes_crate \<subseteq> disc: frame_codec "discovery_decode P"
    "\<lambda>e. frame_wire Discovery (discovery_payload e)" "discovery_ok P"
  by unfold_locales
    (simp_all add: discovery_decode_wire discovery_decode_prefix decode_empty)

subsection \<open>Truncated payloads\<close>

text \<open>
  A call that reads from the front of a buffer does not look at bytes it has no need for: if it
  returns on a buffer, it returns the same on a longer one and leaves the additional bytes.
\<close>

definition streaming :: "(bytes, 'a, 'e) call \<Rightarrow> bool" where
  "streaming f \<longleftrightarrow> (\<forall>s t. fst (f s) \<noteq> Panic \<longrightarrow> f (s @ t) = (fst (f s), snd (f s) @ t))"

lemma streaming_basic [intro]:
  "streaming (sret a)" "streaming (serr e)" "streaming (slift r)"
  by (simp_all add: streaming_def outcome_simps)

lemma streaming_sbind [intro]:
  assumes "streaming m" and "\<And>a. streaming (f a)"
  shows "streaming (sbind m f)"
  unfolding streaming_def
proof (intro allI impI)
  fix s t
  assume np: "fst (sbind m f s) \<noteq> Panic"
  obtain r s' where m: "m s = (r, s')" by fastforce
  have "r \<noteq> Panic"
    using np m by (auto simp: sbind_def)
  with assms(1) m have mt: "m (s @ t) = (r, s' @ t)"
    by (force simp: streaming_def)
  show "sbind m f (s @ t) = (fst (sbind m f s), snd (sbind m f s) @ t)"
  proof (cases r)
    case (Ok a)
    with np m assms(2) [of a] mt show ?thesis
      by (auto simp: streaming_def sbind_def)
  qed (use m mt np in \<open>simp_all add: sbind_def\<close>)
qed

lemma streaming_if [intro]: "streaming f \<Longrightarrow> streaming g \<Longrightarrow> streaming (if b then f else g)"
  by simp

lemma streaming_truncated:
  assumes "streaming f" and "f (s @ t) = (Ok a, [])" and "t \<noteq> []"
  shows "fst (f s) = Panic"
  using assms unfolding streaming_def by (metis append_is_Nil_conv prod.inject)

lemma streaming_spanic:
  "(\<And>s t a s'. g s = Some (a, s') \<Longrightarrow> g (s @ t) = Some (a, s' @ t)) \<Longrightarrow> streaming (spanic g)"
  by (auto simp: streaming_def spanic_def split: option.splits)

context bytes_crate
begin

lemma streaming_gets [intro]:
  "streaming (spanic (get_u8 P))" "streaming (spanic (get_u16 P))"
  "streaming (spanic (get_u32 P))" "streaming (spanic (split_to P n))"
  by (rule streaming_spanic,
      simp add: get_u8_Some_iff get_u16_Some_iff get_u32_Some_iff split_to_Some_iff)+

lemma streaming_bodies: "streaming (connection_body P)" "streaming (discovery_body P)"
  unfolding connection_body_def discovery_body_def
  by (intro streaming_sbind streaming_if streaming_gets streaming_basic)+

lemma decode_after_header:
  assumes "unat l \<le> 5 + length s"
  shows "connection_decode P (SIGNATURE @ be16_bytes l @ message_type_code Connect # s) =
      connection_body P s"
    and "discovery_decode P (SIGNATURE @ be16_bytes l @ message_type_code Discovery # s) =
      discovery_body P s"
proof -
  have "header_decode P (SIGNATURE @ be16_bytes l @ message_type_code t # s) =
      (Ok (Some \<lparr>h_length = l, h_message_type = t\<rparr>), s)" for t
    using assms by (simp add: header_decode_frame)
  then show "connection_decode P (SIGNATURE @ be16_bytes l @ message_type_code Connect # s) =
      connection_body P s"
    "discovery_decode P (SIGNATURE @ be16_bytes l @ message_type_code Discovery # s) =
      discovery_body P s"
    by (simp_all only: connection_decode_def discovery_decode_def sbind_cases(1) option.case header.simps simp_thms if_False not_False_eq_True)
qed

end

subsection \<open>Encoding discovery messages\<close>

lemma u16_of_add: "u16_of m + u16_of n = u16_of (m + n)"
  by (simp add: u16_of_def)

lemma u16_of_numerals: "(5 :: u16) = u16_of 5" "(40 :: u16) = u16_of 40" "(2 :: u16) = u16_of 2"
  by (simp_all add: u16_of_def)

lemma add_u16_of:
  assumes "m < 65536" "n < 65536"
  shows "add_u16 checks (u16_of m) (u16_of n) =
     (if checks \<and> 65536 \<le> m + n then Panic else Ok (u16_of (m + n)))"
  using assms by (simp add: add_u16_def u16_of_add)

lemma add_u16_unchecked: "add_u16 False a b = Ok (a + b)"
  by (simp add: add_u16_def)

lemma discovery_len_eq:
  assumes n: "length (pm_name m) < 65536"
  shows "discovery_len P (PresenceResponse m) =
    (let total = 47 + length (pm_name m) + length (show_socket_addr (pm_addr m))
     in if overflow_checks P \<and> 65536 \<le> total then Panic else Ok (u16_of total))"
proof -
  define a where "a = length (show_socket_addr (pm_addr m))"
  have a: "a < 65536"
    using show_socket_addr_length [of "pm_addr m"] by (simp add: a_def)
  have five: "(1 + 2 + 2 :: u16) = u16_of 5" by (simp add: u16_of_def)
  show ?thesis
  proof (cases "overflow_checks P")
    case False
    with n a show ?thesis
      unfolding discovery_len.simps five
      by (simp add: u16_try_from_def add_u16_unchecked u16_of_numerals(2,3) u16_of_add
          Let_def add_ac flip: a_def)
  next
    case True
    with n a show ?thesis
      unfolding discovery_len.simps five
      by (simp add: u16_try_from_def u16_of_numerals(2,3) add_u16_of Let_def flip: a_def)
  qed
qed

lemma discovery_len_panic: "65536 \<le> length (pm_name m) \<Longrightarrow> discovery_len P (PresenceResponse m) = Panic"
  by (simp add: u16_try_from_def)

lemma header_new_of:
  assumes "n < 65536"
  shows "header_new P t (u16_of n) =
    (if overflow_checks P \<and> 65536 \<le> n + 5 then Panic
     else Ok \<lparr>h_length = u16_of (n + 5), h_message_type = t\<rparr>)"
proof -
  have five: "header_len = u16_of 5" by (simp add: header_len_def u16_of_def)
  from assms show ?thesis unfolding header_new_def five by (simp add: add_u16_of)
qed

lemma header_new_unchecked:
  "\<not> overflow_checks P \<Longrightarrow>
   header_new P t (u16_of n) = Ok \<lparr>h_length = u16_of (n + 5), h_message_type = t\<rparr>"
  by (simp add: header_new_def add_u16_unchecked header_len_def u16_of_numerals(1) u16_of_add)

context bytes_crate
begin

text \<open>
  The encoder on every metadata whose name fits a 16-bit length: with overflow checks a message
  that is too long panics; otherwise the layout is written, and the length field is the length of
  the message modulo 2^16.
\<close>

lemma discovery_encode_eq:
  assumes "length (pm_name m) < 65536" and "length (id_bytes (pm_id m)) = 40"
  shows "discovery_encode P (PresenceResponse m) dst =
    (let payload = discovery_payload (PresenceResponse m)
     in if overflow_checks P \<and> 65536 \<le> 5 + length payload then (Panic, dst)
        else (Ok (), dst @ frame_wire Discovery payload))"
proof -
  define a where "a = length (show_socket_addr (pm_addr m))"
  have a: "a < 65536"
    using show_socket_addr_length [of "pm_addr m"] by (simp add: a_def)
  define total where "total = 47 + length (pm_name m) + a"
  have payload: "length (discovery_payload (PresenceResponse m)) = total"
    using assms(2) by (simp add: total_def a_def)
  have l: "(discovery_len P (PresenceResponse m) :: (u16, parse_error) outcome) =
      (if overflow_checks P \<and> 65536 \<le> total then Panic else Ok (u16_of total))"
    unfolding discovery_len_eq [OF assms(1)] total_def a_def Let_def ..
  have h: "(header_new P Discovery (u16_of total) :: (header, parse_error) outcome) =
      (if overflow_checks P \<and> 65536 \<le> total + 5 then Panic
       else Ok \<lparr>h_length = u16_of (total + 5), h_message_type = Discovery\<rparr>)"
    if "\<not> (overflow_checks P \<and> 65536 \<le> total)"
    using that by (cases "overflow_checks P") (simp_all add: header_new_of header_new_unchecked)
  show ?thesis
  proof (cases "overflow_checks P \<and> 65536 \<le> 5 + total")
    case True
    then show ?thesis
      unfolding discovery_encode_def l payload Let_def
      using h by (simp add: outcome_simps add.commute)
  next
    case False
    then have small: "\<not> (overflow_checks P \<and> 65536 \<le> total)" by auto
    from h [OF small] False
    have "(header_new P Discovery (u16_of total) :: (header, parse_error) outcome) =
       Ok \<lparr>h_length = u16_of (5 + total), h_message_type = Discovery\<rparr>"
      by (simp add: add.commute)
    with False small show ?thesis
      unfolding discovery_encode_def l payload frame_wire_def Let_def
      using assms(1) a by (simp add: outcome_simps header_encode_append buffer_laws
          u16_try_from_def flip: a_def)
  qed
qed

lemma discovery_encode_wire:
  assumes "discovery_ok P e"
  shows "discovery_encode P e dst = (Ok (), dst @ frame_wire Discovery (discovery_payload e))"
proof (cases e)
  case PresenceRequest
  have "(header_new P Discovery 1 :: (header, parse_error) outcome) =
      Ok \<lparr>h_length = u16_of 6, h_message_type = Discovery\<rparr>"
    using header_new_of [of 1 P Discovery] by (simp add: u16_of_def)
  then show ?thesis
    by (simp add: PresenceRequest discovery_encode_def outcome_simps header_encode_append
        buffer_laws frame_wire_def)
next
  case (PresenceResponse m)
  with assms have "length (id_bytes (pm_id m)) = 40" "length (pm_name m) < 65536"
    using discovery_small [OF assms] by (simp_all add: id_facts)
  with PresenceResponse show ?thesis
    using discovery_small [OF assms]
    by (simp add: discovery_encode_eq Let_def del: discovery_payload.simps)
qed

lemma truncated_payload_panics:
  assumes "connection_ok P c" "connection_payload c = p @ missing" "missing \<noteq> []"
    and "unat l \<le> 5 + length p"
  shows "fst (connection_decode P (SIGNATURE @ be16_bytes l @ message_type_code Connect # p)) = Panic"
proof -
  have "connection_body P (p @ missing) = (Ok (Some c), [])"
    using connection_decode_wire [OF assms(1), of "[]"]
      decode_after_header(1) [of "u16_of (5 + length (connection_payload c))" "connection_payload c"]
      connection_payload_small [OF assms(1)]
    by (simp add: frame_wire_def flip: assms(2))
  then show ?thesis
    unfolding decode_after_header(1) [OF assms(4)]
    using streaming_truncated [OF streaming_bodies(1)] assms(3) by blast
qed

lemma truncated_discovery_panics:
  assumes "discovery_ok P e" "discovery_payload e = p @ missing" "missing \<noteq> []"
    and "unat l \<le> 5 + length p"
  shows "fst (discovery_decode P (SIGNATURE @ be16_bytes l @ message_type_code Discovery # p)) = Panic"
proof -
  have "discovery_body P (p @ missing) = (Ok (Some e), [])"
    using discovery_decode_wire [OF assms(1), of "[]"]
      decode_after_header(2) [of "u16_of (5 + length (discovery_payload e))" "discovery_payload e"]
      discovery_small [OF assms(1)]
    by (simp add: frame_wire_def flip: assms(2))
  then show ?thesis
    unfolding decode_after_header(2) [OF assms(4)]
    using streaming_truncated [OF streaming_bodies(2)] assms(3) by blast
qed

end

subsection \<open>Progress\<close>

text \<open>A call that only ever takes bytes away.\<close>

definition shrinking :: "(bytes, 'a, 'e) call \<Rightarrow> bool" where
  "shrinking f \<longleftrightarrow> (\<forall>s. length (snd (f s)) \<le> length s)"

lemma shrinking_basic: "shrinking (sret a)" "shrinking (serr e)" "shrinking (slift r)"
  by (simp_all add: shrinking_def outcome_simps)

lemma shrinking_sbind:
  assumes "shrinking m" and "\<And>a. shrinking (f a)"
  shows "shrinking (sbind m f)"
  unfolding shrinking_def
proof
  fix s
  obtain r t where m: "m s = (r, t)" by fastforce
  then have "length t \<le> length s"
    using assms(1) by (metis shrinking_def snd_conv)
  moreover have "length (snd (f a t)) \<le> length t" for a
    using assms(2) by (simp add: shrinking_def)
  ultimately show "length (snd (sbind m f s)) \<le> length s"
    using m by (cases r) (auto simp: sbind_def intro: order_trans)
qed

lemma shrinking_if: "shrinking f \<Longrightarrow> shrinking g \<Longrightarrow> shrinking (if b then f else g)"
  by simp

lemma shrinking_spanic:
  "(\<And>s a s'. g s = Some (a, s') \<Longrightarrow> length s' \<le> length s) \<Longrightarrow> shrinking (spanic g)"
  by (auto simp: shrinking_def spanic_def split: option.splits)

text \<open>A decoder that makes progress with every message drains every buffer.\<close>

lemma consume_returns:
  assumes "\<And>src a rest. dec src = (Ok (Some a), rest) \<Longrightarrow> length rest < length src"
  shows "\<exists>r. consume dec src acc = Some r"
proof (induction src arbitrary: acc rule: length_induct)
  case (1 src)
  obtain r s where d: "dec src = (r, s)" by fastforce
  show ?case
  proof (cases r)
    case (Ok o')
    show ?thesis
    proof (cases o')
      case (Some a)
      with Ok d have "length s < length src"
        using assms by blast
      with 1 obtain r where "consume dec s (acc @ [a]) = Some r" by blast
      with Ok Some d show ?thesis by (subst consume.simps) simp
    qed (use Ok d in \<open>subst consume.simps, simp\<close>)
  qed (use d in \<open>subst consume.simps, simp\<close>)+
qed

context bytes_crate
begin

lemma shrinking_gets:
  "shrinking (spanic (get_u8 P))" "shrinking (spanic (get_u16 P))"
  "shrinking (spanic (get_u32 P))" "shrinking (spanic (split_to P n))"
  by (rule shrinking_spanic,
      simp add: get_u8_Some_iff get_u16_Some_iff get_u32_Some_iff split_to_Some_iff)+

lemma shrinking_bodies: "shrinking (connection_body P)" "shrinking (discovery_body P)"
  unfolding connection_body_def discovery_body_def
  by (intro shrinking_sbind shrinking_if shrinking_gets shrinking_basic)+

lemma codec_progress:
  assumes "sbind (header_decode P) (\<lambda>h. case h of None \<Rightarrow> sret None | Some x \<Rightarrow> F x) src =
      (Ok (Some a), rest)" and "\<And>x. shrinking (F x)"
  shows "length rest < length src"
proof -
  obtain h t where h: "header_decode P src = (Ok h, t)"
    and k: "(case h of None \<Rightarrow> sret None | Some x \<Rightarrow> F x) t = (Ok (Some a), rest)"
    using assms(1) by (auto simp: sbind_Ok_iff)
  then obtain x where x: "h = Some x" "F x t = (Ok (Some a), rest)"
    by (cases h) (auto simp: outcome_simps)
  then have "length rest \<le> length t"
    using assms(2) [of x] by (metis shrinking_def snd_conv)
  moreover have "length t < length src"
    using h x by (simp add: header_decode_Some_iff)
  ultimately show ?thesis by simp
qed

lemma decode_progress:
  "connection_decode P src = (Ok (Some c), rest) \<Longrightarrow> length rest < length src"
  "discovery_decode P src = (Ok (Some e), rest) \<Longrightarrow> length rest < length src"
  unfolding connection_decode_def discovery_decode_def
  by (erule codec_progress, intro shrinking_if shrinking_bodies shrinking_basic)+

end

subsection \<open>Reassembly\<close>

context bytes_crate
begin

lemma connection_feed:
  assumes "list_all (connection_ok P) ms"
    and "concat chunks = concat (map (\<lambda>m. snd (connection_encode P m [])) ms)"
  shows "feed (connection_decode P) [] chunks [] = Some (Ok ms, [])"
proof -
  have "map (\<lambda>m. snd (connection_encode P m [])) ms =
      map (\<lambda>c. frame_wire Connect (connection_payload c)) ms"
    using assms(1) by (simp add: connection_encode_wire list_all_iff)
  with assms conn.feed_stream [of ms "[]" chunks "[]"] conn.dec_empty show ?thesis
    by simp
qed

lemma discovery_feed:
  assumes "list_all (discovery_ok P) es"
    and "concat chunks = concat (map (\<lambda>e. snd (discovery_encode P e [])) es)"
  shows "feed (discovery_decode P) [] chunks [] = Some (Ok es, [])"
proof -
  have "map (\<lambda>e. snd (discovery_encode P e [])) es =
      map (\<lambda>e. frame_wire Discovery (discovery_payload e)) es"
    using assms(1) by (simp add: discovery_encode_wire list_all_iff)
  with assms disc.feed_stream [of es "[]" chunks "[]"] disc.dec_empty show ?thesis
    by simp
qed

end

subsection \<open>Properties of the codecs\<close>

text \<open>
  C5. The connection codec round trip: a message that fits the documented layout is encoded as
  exactly that layout, appended to whatever the send buffer holds, and decoding that frame, with
  anything behind it in the receive buffer, gives the message back and consumes exactly the frame.
\<close>

theorem connection_roundtrip:
  assumes "bytes_crate P" and "connection_ok P c"
  shows "connection_encode P c dst = (Ok (), dst @ frame_wire Connect (connection_payload c)) \<and>
    connection_decode P (frame_wire Connect (connection_payload c) @ rest) = (Ok (Some c), rest)"
  using assms by (simp add: bytes_crate.connection_encode_wire bytes_crate.connection_decode_wire)

text \<open>The identifier and the tag of the codec tests.\<close>

definition test_id :: peer_id where
  "test_id = PeerId (lit ''0123456789012345678901234567890123456789'')"

definition test_tag :: bytes where
  "test_tag = lit ''0TQEnaM5YHPJ8LJ2KD32bTGdnfK23ScT''"

definition test_metadata :: peer_metadata where
  "test_metadata = \<lparr>pm_name = lit ''test phone'', pm_typ = AppleiPhone, pm_id = test_id,
     pm_addr = V4 LOCALHOST 5001\<rparr>"

lemma test_id_ok [simp]: "peer_id_ok P test_id"
  unfolding test_id_def
  by (rule ascii_alnum_peer_id) (simp_all add: lit_def ascii_alnum_def ascii_digit_def)

lemma test_id_length: "length (id_bytes test_id) = 40"
  by (simp add: test_id_def id_bytes_def lit_def)

lemma test_tag_length [simp]: "length test_tag = 32"
  by (simp add: test_tag_def lit_def)

lemma test_response_ok [simp]: "discovery_ok P (PresenceResponse test_metadata)"
proof -
  have "is_ascii (lit ''test phone'')" by (simp add: lit_def)
  then show ?thesis
    using show_socket_addr_length [of "V4 LOCALHOST 5001"]
    by (simp add: test_metadata_def test_id_length del: show_socket_addr.simps) (simp add: lit_def)
qed

theorem connection_roundtrip_witness:
  "bytes_crate (list_platform True (\<lambda>_. False)) \<and>
   connection_decode (list_platform True (\<lambda>_. False))
     (frame_wire Connect (connection_payload (Request test_id test_tag)) @ [64]) =
   (Ok (Some (Request test_id test_tag)), [64])"
  using connection_roundtrip [OF list_buffers.bytes_crate_axioms, of True "\<lambda>_. False" "Request test_id test_tag"]
    list_buffers.bytes_crate_axioms by simp

text \<open>
  C6. The discovery codec round trip: a presence request, and a presence response whose name is a
  valid string, whose identifier is well formed, whose address has a text that determines it and
  whose whole message fits the 16-bit length, is encoded as the documented layout and decoded
  back, with the bytes behind it left in the buffer.
\<close>

theorem discovery_roundtrip:
  assumes "bytes_crate P" and "discovery_ok P e"
  shows "discovery_encode P e dst = (Ok (), dst @ frame_wire Discovery (discovery_payload e)) \<and>
    discovery_decode P (frame_wire Discovery (discovery_payload e) @ rest) = (Ok (Some e), rest)"
  using assms by (simp add: bytes_crate.discovery_encode_wire bytes_crate.discovery_decode_wire)

theorem discovery_roundtrip_witness:
  "discovery_ok (list_platform True (\<lambda>_. False)) (PresenceResponse test_metadata) \<and>
   discovery_decode (list_platform True (\<lambda>_. False))
     (frame_wire Discovery (discovery_payload (PresenceResponse test_metadata)) @ [7]) =
   (Ok (Some (PresenceResponse test_metadata)), [7])"
  using discovery_roundtrip [OF list_buffers.bytes_crate_axioms test_response_ok,
      of True "\<lambda>_. False" "[]" "[7]"] test_response_ok by blast

text \<open>
  What the connection decoder accepts, on every input: it returns a message exactly when the
  buffer starts with the signature, a length the buffer covers, the message type of connection
  messages and the layout of a message that fits it; it then consumes exactly these bytes,
  whatever the length field says.
\<close>

theorem connection_decode_exact:
  assumes "bytes_crate P"
  shows "connection_decode P src = (Ok (Some c), rest) \<longleftrightarrow>
     (\<exists>l. src = SIGNATURE @ be16_bytes l @ message_type_code Connect # connection_payload c @ rest \<and>
          unat l \<le> length src) \<and> connection_ok P c"
  using assms by (rule bytes_crate.connection_decode_Some_iff)

theorem connection_decode_exact_witness:
  "connection_decode (list_platform False (\<lambda>_. False)) (SIGNATURE @ be16_bytes 0 @ [2, 4, 0, 0, 7, 209]) =
   (Ok (Some (Failure 2001)), [])"
proof -
  have "be32_bytes 2001 = [0, 0, 7, 209]" by (simp add: be32_bytes_def)
  then show ?thesis
    unfolding connection_decode_exact [OF list_buffers.bytes_crate_axioms]
    by (intro conjI exI [of _ 0]) simp_all
qed

text \<open>
  C13. Reassembly of connection messages: however a transport cuts the encodings of a sequence of
  messages into chunks, appending each chunk to the buffer and draining it with \<open>decode\<close> returns
  exactly the messages, in order, and leaves an empty buffer.
\<close>

theorem connection_reassembly:
  assumes "bytes_crate P" and "list_all (connection_ok P) ms"
    and "concat chunks = concat (map (\<lambda>m. snd (connection_encode P m [])) ms)"
  shows "feed (connection_decode P) [] chunks [] = Some (Ok ms, [])"
  using assms by (rule bytes_crate.connection_feed)

theorem connection_reassembly_witness:
  "feed (connection_decode (list_platform True (\<lambda>_. False))) []
     [[64, 64, 0], [6, 2, 2, 64], [64, 0, 6, 2, 3]] [] =
   Some (Ok [CompleteRequest, CompleteResponse], [])"
proof (rule connection_reassembly [OF list_buffers.bytes_crate_axioms])
  show "list_all (connection_ok (list_platform True (\<lambda>_. False))) [CompleteRequest, CompleteResponse]"
    by simp
  show "concat [[64, 64, 0], [6, 2, 2, 64], [64, 0, 6, 2, 3]] =
    concat (map (\<lambda>m. snd (connection_encode (list_platform True (\<lambda>_. False)) m []))
      [CompleteRequest, CompleteResponse])"
    by (simp add: list_buffers.connection_encode_wire frame_wire_def SIGNATURE_def be16_bytes_def
        u16_of_def)
qed

text \<open>
  C22. Reassembly of discovery messages: the encodings of a sequence of presence messages, cut into
  any chunks, are decoded to the same sequence.
\<close>

theorem discovery_reassembly:
  assumes "bytes_crate P" and "list_all (discovery_ok P) es"
    and "concat chunks = concat (map (\<lambda>e. snd (discovery_encode P e [])) es)"
  shows "feed (discovery_decode P) [] chunks [] = Some (Ok es, [])"
  using assms by (rule bytes_crate.discovery_feed)

theorem discovery_reassembly_witness:
  "feed (discovery_decode (list_platform True (\<lambda>_. False))) [] [[64, 64, 0, 6], [1, 0]] [] =
   Some (Ok [PresenceRequest], [])"
proof (rule discovery_reassembly [OF list_buffers.bytes_crate_axioms])
  show "list_all (discovery_ok (list_platform True (\<lambda>_. False))) [PresenceRequest]" by simp
  show "concat [[64, 64, 0, 6], [1, 0]] =
    concat (map (\<lambda>e. snd (discovery_encode (list_platform True (\<lambda>_. False)) e [])) [PresenceRequest])"
    by (simp add: list_buffers.discovery_encode_wire frame_wire_def SIGNATURE_def be16_bytes_def
        u16_of_def)
qed

text \<open>
  C39. Draining a buffer terminates: on every input the loop that decodes until no complete frame
  is left returns, for both codecs, because every decoded message consumes bytes.
\<close>

theorem consume_terminates:
  assumes "bytes_crate P"
  shows "(\<exists>r. consume (connection_decode P) src acc = Some r) \<and>
    (\<exists>r. consume (discovery_decode P) src' acc' = Some r)"
  using bytes_crate.decode_progress [OF assms] by (blast intro: consume_returns)

theorem consume_terminates_witness:
  "\<exists>r. consume (connection_decode (list_platform True (\<lambda>_. False))) [64, 64, 0, 6, 2, 2, 64] [] = Some r"
  using consume_terminates [OF list_buffers.bytes_crate_axioms] by blast

text \<open>
  A decoder asks for more input only without consuming any, and an input of at least five
  bytes that does not start with the signature is refused without being consumed.
\<close>

theorem incomplete_input_kept:
  assumes "bytes_crate P"
  shows "(connection_decode P src = (Ok None, s) \<longrightarrow> s = src) \<and>
    (discovery_decode P src = (Ok None, s) \<longrightarrow> s = src) \<and>
    (5 \<le> length src \<and> take 2 src \<noteq> SIGNATURE \<longrightarrow>
       connection_decode P src = (Err NotAPacket, src) \<and> discovery_decode P src = (Err NotAPacket, src))"
proof -
  have "5 \<le> length src \<and> take 2 src \<noteq> SIGNATURE \<longrightarrow> header_decode P src = (Err NotAPacket, src)"
    using bytes_crate.header_decode_not_a_packet [OF assms] by blast
  then show ?thesis
    using bytes_crate.connection_decode_None [OF assms] bytes_crate.discovery_decode_None [OF assms]
    by (auto simp: connection_decode_def discovery_decode_def outcome_simps)
qed

theorem incomplete_input_kept_witness:
  "discovery_decode (list_platform True (\<lambda>_. False)) [71, 69, 84, 32, 47] =
   (Err NotAPacket, [71, 69, 84, 32, 47])"
  using incomplete_input_kept [OF list_buffers.bytes_crate_axioms, of _ _ "[71, 69, 84, 32, 47]"]
  by (simp add: SIGNATURE_def)

text \<open>
  The decoders trust the length field: where it covers no more than the bytes that are there,
  a message whose payload is cut short anywhere makes them panic instead of returning an error,
  in the connection codec and in the discovery codec alike.
\<close>

theorem truncated_frames_panic:
  assumes "bytes_crate P" and "missing \<noteq> []" and "unat l \<le> 5 + length p"
  shows "(connection_ok P c \<and> connection_payload c = p @ missing \<longrightarrow>
      fst (connection_decode P (SIGNATURE @ be16_bytes l @ message_type_code Connect # p)) = Panic) \<and>
    (discovery_ok P e \<and> discovery_payload e = p @ missing \<longrightarrow>
      fst (discovery_decode P (SIGNATURE @ be16_bytes l @ message_type_code Discovery # p)) = Panic)"
  using assms bytes_crate.truncated_payload_panics [OF assms(1)]
    bytes_crate.truncated_discovery_panics [OF assms(1)] by blast

theorem truncated_frames_panic_witness:
  "fst (discovery_decode (list_platform True (\<lambda>_. False)) [64, 64, 0, 5, 1]) = Panic"
proof -
  have "fst (discovery_decode (list_platform True (\<lambda>_. False))
      (SIGNATURE @ be16_bytes 5 @ message_type_code Discovery # [])) = Panic"
    using truncated_frames_panic [OF list_buffers.bytes_crate_axioms, of "[0]" 5 "[]" True
        "\<lambda>_. False" _ PresenceRequest] by simp
  then show ?thesis by (simp add: SIGNATURE_def be16_bytes_def)
qed

text \<open>
  C33. Messages that do not fit the 16-bit length. A presence response is encoded as its layout as
  long as the whole message is shorter than 2^16 bytes; beyond, a build with overflow checks
  panics, and a build without them writes the length modulo 2^16 in front of the whole message; a
  name of 2^16 bytes or more panics in both.
\<close>

theorem discovery_encode_bounds:
  assumes "bytes_crate P" and "peer_id_ok P (pm_id m)"
  shows "discovery_encode P (PresenceResponse m) dst =
    (let payload = discovery_payload (PresenceResponse m); total = 5 + length payload
     in if 65536 \<le> length (pm_name m) \<or> (overflow_checks P \<and> 65536 \<le> total) then (Panic, dst)
        else (Ok (), dst @ SIGNATURE @ be16_bytes (of_nat (total mod 65536)) @
                message_type_code Discovery # payload))"
proof (cases "65536 \<le> length (pm_name m)")
  case True
  then show ?thesis
    by (simp add: discovery_encode_def discovery_len_panic outcome_simps del: discovery_len.simps)
next
  case False
  have "(of_nat (n mod 65536) :: u16) = u16_of n" for n
    by (simp add: u16_of_def word_unat_eq_iff unat_of_nat)
  with False show ?thesis
    using bytes_crate.discovery_encode_eq [OF assms(1), of m] peer_id_ok_length [OF assms(2)]
    by (simp add: Let_def frame_wire_def del: discovery_payload.simps)
qed

theorem discovery_encode_bounds_witness:
  "discovery_encode (list_platform True (\<lambda>_. False))
     (PresenceResponse (test_metadata\<lparr>pm_name := replicate 65500 97\<rparr>)) [] = (Panic, [])"
proof -
  have "65536 \<le> 5 + length (discovery_payload
      (PresenceResponse (test_metadata\<lparr>pm_name := replicate 65500 97\<rparr>)))"
    by (simp add: test_metadata_def test_id_length)
  moreover have "peer_id_ok P (pm_id (test_metadata\<lparr>pm_name := replicate 65500 97\<rparr>))" for P
    by (simp add: test_metadata_def)
  ultimately show ?thesis
    using discovery_encode_bounds [OF list_buffers.bytes_crate_axioms,
        of True "\<lambda>_. False" "test_metadata\<lparr>pm_name := replicate 65500 97\<rparr>" "[]"]
    by (simp add: Let_def list_platform_def del: discovery_payload.simps)
qed

text \<open>
  C34. Identifiers derived from certificates do not fit the protocol. \<open>from_cert\<close> gives 64 hexadecimal
  digits where identifiers have 40 characters: \<open>from_string\<close> refuses them, and a connection
  request that carries one is encoded as a frame of 102 bytes under a header that announces 78, which
  decodes to a request with another identifier and another tag and leaves 24 bytes of it in the
  buffer.
\<close>

theorem from_cert_id_breaks_protocol:
  assumes "bytes_crate P" and "ring_crate R" and "length tag = 32"
  shows "from_string P (inner (from_cert R cert)) = Err IdLength \<and>
    (\<exists>frame pid tag' rest.
       connection_encode P (Request (from_cert R cert) tag) [] = (Ok (), frame) \<and>
       length frame = 102 \<and> take 2 (drop 2 frame) = be16_bytes 78 \<and>
       connection_decode P frame = (Ok (Some (Request pid tag')), rest) \<and>
       pid = PeerId (take 40 (inner (from_cert R cert))) \<and> pid \<noteq> from_cert R cert \<and>
       tag' = drop 40 (inner (from_cert R cert)) @ take 8 tag \<and> rest = drop 8 tag)"
proof
  let ?s = "inner (from_cert R cert)"
  have len: "length ?s = 64"
    using assms(2) by (rule ring_crate.from_cert_length)
  show "from_string P ?s = Err IdLength"
    using assms(2) by (rule ring_crate.from_cert_rejected)
  have alnum: "ascii_alnum ?s"
    by (simp add: from_cert_def ascii_alnum_hex)
  define frame where "frame = SIGNATURE @ be16_bytes 78 @ 2 # 0 # ?s @ tag"
  have "(header_new P Connect 73 :: (header, parse_error) outcome) =
      Ok \<lparr>h_length = 78, h_message_type = Connect\<rparr>"
    using header_new_of [of 73 P Connect] by (simp add: u16_of_def)
  then have enc: "connection_encode P (Request (from_cert R cert) tag) [] = (Ok (), frame)"
    using assms(1)
    by (simp add: connection_encode_def outcome_simps bytes_crate.header_encode_append
        bytes_crate.buffer_laws frame_def id_bytes_def)
  let ?pid = "PeerId (take 40 ?s)" and ?tag = "drop 40 ?s @ take 8 tag"
  have "ascii_alnum (take 40 ?s)"
    using alnum by (auto simp: ascii_alnum_def list_all_iff dest: in_set_takeD)
  then have "peer_id_ok P ?pid"
    using len by (intro ascii_alnum_peer_id) simp_all
  moreover have "frame = SIGNATURE @ be16_bytes 78 @ message_type_code Connect #
      connection_payload (Request ?pid ?tag) @ drop 8 tag"
    by (simp add: frame_def id_bytes_def)
  ultimately have dec: "connection_decode P frame = (Ok (Some (Request ?pid ?tag)), drop 8 tag)"
    unfolding bytes_crate.connection_decode_Some_iff [OF assms(1)]
    using len assms(3) by (intro conjI exI [of _ 78]) (simp_all add: frame_def)
  have "?pid \<noteq> from_cert R cert"
  proof
    assume "?pid = from_cert R cert"
    then have "take 40 ?s = ?s" by (metis peer_id.sel)
    then have "length (take 40 ?s) = length ?s" by (rule arg_cong)
    with len show False by simp
  qed
  with enc dec len assms(3) show "\<exists>frame pid tag' rest.
       connection_encode P (Request (from_cert R cert) tag) [] = (Ok (), frame) \<and>
       length frame = 102 \<and> take 2 (drop 2 frame) = be16_bytes 78 \<and>
       connection_decode P frame = (Ok (Some (Request pid tag')), rest) \<and>
       pid = ?pid \<and> pid \<noteq> from_cert R cert \<and> tag' = ?tag \<and> rest = drop 8 tag"
    by (intro exI [of _ frame] exI [of _ ?pid] exI [of _ ?tag] exI [of _ "drop 8 tag"])
      (simp_all add: frame_def SIGNATURE_def be16_bytes_def)
qed

theorem from_cert_id_breaks_protocol_witness:
  "from_string (list_platform True (\<lambda>_. False)) (inner (from_cert reference_ring [1, 2, 3])) = Err IdLength"
  using from_cert_id_breaks_protocol [OF list_buffers.bytes_crate_axioms
      reference_ring.ring_crate_axioms test_tag_length] by blast

end
