(* ===== verification/Codec_Tests.thy ===== *)
theory Codec_Tests
  imports Proto
begin

text \<open>
  The unit tests of the codecs (\<^verbatim>\<open>mod tests\<close> of \<^verbatim>\<open>crate/p2p/src/proto.rs\<close>) and of message authentication
  (\<^verbatim>\<open>hmac.rs\<close>), translated like the code they test: a test fills a buffer with the writing methods of
  the crate \<^verbatim>\<open>bytes\<close> or with an encoder, drains it with \<open>consume\<close> and looks at the result. A failing
  assertion is a panic. They are run here on every implementation of the buffer methods at once.
\<close>

subsection \<open>Running a test\<close>

text \<open>\<open>None\<close> is a test that does not return, since \<open>consume\<close> is a loop without a bound.\<close>

type_synonym test_result = "(unit, string) outcome option"

text \<open>\<open>BytesMut::new()\<close> and a sequence of \<open>put\<close>s on it.\<close>

definition written :: "(bytes \<Rightarrow> bytes) list \<Rightarrow> bytes" where
  "written puts = foldl (\<lambda>src p. p src) [] puts"

text \<open>
  What every decoding test does: drain the buffer, assert that nothing is left and that there is one
  item, take it from the vector, and look at it (\<open>inspect\<close>, which is a panic for another message).
\<close>

definition drain_one ::
    "(bytes, 'm option, parse_error) call \<Rightarrow> bytes \<Rightarrow> ('m \<Rightarrow> (unit, string) outcome) \<Rightarrow> test_result" where
  "drain_one dec src inspect = (case consume dec src [] of
       None \<Rightarrow> None
     | Some (Ok result, src') \<Rightarrow> Some (
         bind_o (assert_o (length src' = 0)) (\<lambda>_.
         bind_o (assert_o (length result = 1)) (\<lambda>_.
         case result of [] \<Rightarrow> Panic | _ \<Rightarrow> inspect (last result))))
     | Some _ \<Rightarrow> Some Panic)"

text \<open>\<open>encoder.encode(item, &mut dst).expect(..)\<close>, then the same with the buffer.\<close>

definition encode_then_drain :: "('m \<Rightarrow> (bytes, unit, parse_error) call) \<Rightarrow>
    (bytes, 'm option, parse_error) call \<Rightarrow> 'm \<Rightarrow> ('m \<Rightarrow> (unit, string) outcome) \<Rightarrow> test_result" where
  "encode_then_drain enc dec item inspect = (case enc item [] of
       (Ok _, dst) \<Rightarrow> drain_one dec dst inspect
     | _ \<Rightarrow> Some Panic)"

text \<open>The patterns of the \<open>let .. else\<close> at the end of each test, with the assertions on what they bind.\<close>

definition is_presence_request :: "discovery_event \<Rightarrow> (unit, string) outcome" where
  "is_presence_request e = (case e of PresenceRequest \<Rightarrow> Ok () | _ \<Rightarrow> Panic)"

definition is_test_response :: "platform \<Rightarrow> discovery_event \<Rightarrow> (unit, string) outcome" where
  "is_test_response P e = (case e of
       PresenceResponse meta \<Rightarrow>
         bind_o (unwrap (from_string P (lit ''0123456789012345678901234567890123456789''))) (\<lambda>pid.
         assert_o (\<lparr>pm_name = lit ''test phone'', pm_typ = AppleiPhone, pm_id = pid,
           pm_addr = V4 (Ipv4Addr 127 0 0 1) 5001\<rparr> = meta))
     | _ \<Rightarrow> Panic)"

definition is_test_tag :: "bytes \<Rightarrow> (unit, string) outcome" where
  "is_test_tag tag =
     bind_o (unwrap (from_utf8 tag)) (\<lambda>s. assert_o (lit ''0TQEnaM5YHPJ8LJ2KD32bTGdnfK23ScT'' = s))"

definition is_test_request :: "connection \<Rightarrow> (unit, string) outcome" where
  "is_test_request c = (case c of
       Request pid tag \<Rightarrow>
         bind_o (assert_o (lit ''0123456789012345678901234567890123456789'' = peer_id_to_string pid)) (\<lambda>_.
         is_test_tag tag)
     | _ \<Rightarrow> Panic)"

definition is_response :: "connection \<Rightarrow> (unit, string) outcome" where
  "is_response c = (case c of Response tag \<Rightarrow> is_test_tag tag | _ \<Rightarrow> Panic)"

definition is_message :: "connection \<Rightarrow> connection \<Rightarrow> (unit, string) outcome" where
  "is_message expected c = assert_o (c = expected)"

subsection \<open>The tests of the discovery codec\<close>

definition decode_discovery_presence_request :: "platform \<Rightarrow> test_result" where
  "decode_discovery_presence_request P =
     drain_one (discovery_decode P)
       (written [put P SIGNATURE, put_u16 P 6, put_u8 P 1, put_u8 P 0]) is_presence_request"

definition decode_discovery_presence_response :: "platform \<Rightarrow> test_result" where
  "decode_discovery_presence_response P =
     drain_one (discovery_decode P)
       (written [put P SIGNATURE, put_u16 P 76, put_u8 P 1, put_u8 P 1, put_u16 P 6, put_u16 P 10,
          put P (lit ''test phone''), put P (lit ''0123456789012345678901234567890123456789''),
          put_u16 P 14, put P (lit ''127.0.0.1:5001'')]) (is_test_response P)"

definition encode_discovery_presence_request :: "platform \<Rightarrow> test_result" where
  "encode_discovery_presence_request P =
     encode_then_drain (discovery_encode P) (discovery_decode P) PresenceRequest is_presence_request"

definition encode_discovery_presence_response :: "platform \<Rightarrow> test_result" where
  "encode_discovery_presence_response P =
     (case from_string P (lit ''0123456789012345678901234567890123456789'') of
        Ok pid \<Rightarrow> encode_then_drain (discovery_encode P) (discovery_decode P)
          (PresenceResponse \<lparr>pm_name = lit ''test phone'', pm_typ = AppleiPhone, pm_id = pid,
             pm_addr = V4 (Ipv4Addr 127 0 0 1) 5001\<rparr>) (is_test_response P)
      | _ \<Rightarrow> Some Panic)"

subsection \<open>The tests of the connection codec\<close>

definition decode_connect_request :: "platform \<Rightarrow> test_result" where
  "decode_connect_request P =
     drain_one (connection_decode P)
       (written [put P SIGNATURE, put_u16 P (73 + 5), put_u8 P 2, put_u8 P 0,
          put P (lit ''0123456789012345678901234567890123456789''),
          put P (lit ''0TQEnaM5YHPJ8LJ2KD32bTGdnfK23ScT'')]) is_test_request"

definition decode_connect_response :: "platform \<Rightarrow> test_result" where
  "decode_connect_response P =
     drain_one (connection_decode P)
       (written [put P SIGNATURE, put_u16 P (33 + 5), put_u8 P 2, put_u8 P 1,
          put P (lit ''0TQEnaM5YHPJ8LJ2KD32bTGdnfK23ScT'')]) is_response"

definition decode_connect_complete_request :: "platform \<Rightarrow> test_result" where
  "decode_connect_complete_request P =
     drain_one (connection_decode P)
       (written [put P SIGNATURE, put_u16 P (1 + 5), put_u8 P 2, put_u8 P 2]) (is_message CompleteRequest)"

definition decode_connect_complete_response :: "platform \<Rightarrow> test_result" where
  "decode_connect_complete_response P =
     drain_one (connection_decode P)
       (written [put P SIGNATURE, put_u16 P (1 + 5), put_u8 P 2, put_u8 P 3]) (is_message CompleteResponse)"

definition decode_connect_failure :: "platform \<Rightarrow> test_result" where
  "decode_connect_failure P =
     drain_one (connection_decode P)
       (written [put P SIGNATURE, put_u16 P (5 + 5), put_u8 P 2, put_u8 P 4, put_u32 P 2001])
       (is_message (Failure 2001))"

definition encode_connect_request :: "platform \<Rightarrow> test_result" where
  "encode_connect_request P =
     (case from_string P (lit ''0123456789012345678901234567890123456789'') of
        Ok pid \<Rightarrow> encode_then_drain (connection_encode P) (connection_decode P)
          (Request pid (lit ''0TQEnaM5YHPJ8LJ2KD32bTGdnfK23ScT'')) is_test_request
      | _ \<Rightarrow> Some Panic)"

definition encode_connect_response :: "platform \<Rightarrow> test_result" where
  "encode_connect_response P =
     encode_then_drain (connection_encode P) (connection_decode P)
       (Response (lit ''0TQEnaM5YHPJ8LJ2KD32bTGdnfK23ScT'')) is_response"

definition encode_connect_completed_request :: "platform \<Rightarrow> test_result" where
  "encode_connect_completed_request P =
     encode_then_drain (connection_encode P) (connection_decode P) CompleteRequest (is_message CompleteRequest)"

definition encode_connect_completed_response :: "platform \<Rightarrow> test_result" where
  "encode_connect_completed_response P =
     encode_then_drain (connection_encode P) (connection_decode P) CompleteResponse (is_message CompleteResponse)"

definition encode_connect_failure :: "platform \<Rightarrow> test_result" where
  "encode_connect_failure P =
     encode_then_drain (connection_encode P) (connection_decode P) (Failure 2001) (is_message (Failure 2001))"

subsection \<open>The test of message authentication\<close>

text \<open>\<open>now\<close> is the time at which the test runs; \<open>?\<close> boxes any error.\<close>

definition hmac_peer_id_auth_code ::
    "platform \<Rightarrow> ring_api \<Rightarrow> 't totp_api \<Rightarrow> nat \<Rightarrow> (unit, string) outcome" where
  "hmac_peer_id_auth_code P R T now =
     (let secret = lit ''QWERTYUIOPQWERTYUIOPQWERTYUIOPQWERTYUIOP'';
          id = lit ''0123456789012345678901234567890123456789''
      in
     bind_o (map_err (\<lambda>_. ''id'') (from_string P id)) (\<lambda>pid.
     bind_o (unwrap (secret_encoded_to_bytes T secret)) (\<lambda>totp.
     bind_o (map_err (\<lambda>_. ''pairing'') (authenticator_new T totp)) (\<lambda>auth.
     bind_o (map_err (\<lambda>_. ''pairing'') (generate T auth now)) (\<lambda>code.
     let tag = sign R code (id_bytes pid) in
     assert_o (is_ok (verify R code (id_bytes pid) tag)))))))"

subsection \<open>Running them\<close>

text \<open>A buffer that holds one frame drains to its message.\<close>

context frame_codec
begin

lemma drain_wire: "ok m \<Longrightarrow> drain_one dec (wire m) inspect = Some (inspect m)"
  using consume_part [of "[]" "[m]" "[]"] by (simp add: drain_one_def dec_empty)

lemma encode_drain:
  assumes "ok m" and "enc m [] = (Ok (), wire m)"
  shows "encode_then_drain enc dec m inspect = Some (inspect m)"
  using drain_wire [OF assms(1)] assms(2) by (simp add: encode_then_drain_def)

end

lemma test_id_from_string: "from_string P (lit ''0123456789012345678901234567890123456789'') = Ok test_id"
  using peer_id_ok_from_string [OF test_id_ok] by (simp add: id_bytes_def test_id_def)

lemma test_metadata_eq: "test_metadata = \<lparr>pm_name = lit ''test phone'', pm_typ = AppleiPhone, pm_id = test_id,
    pm_addr = V4 (Ipv4Addr 127 0 0 1) 5001\<rparr>"
  by (simp add: test_metadata_def LOCALHOST_def)

lemma tag_utf8: "is_test_tag test_tag = Ok ()"
proof -
  have "is_ascii test_tag" by (simp add: test_tag_def lit_def)
  then show ?thesis by (simp add: is_test_tag_def from_utf8_valid) (simp add: test_tag_def)
qed

lemma checks_pass:
  "is_presence_request PresenceRequest = Ok ()" "is_test_response P (PresenceResponse test_metadata) = Ok ()"
  "is_test_request (Request test_id test_tag) = Ok ()" "is_response (Response test_tag) = Ok ()"
  "is_message c c = Ok ()"
  by (simp_all add: is_presence_request_def is_test_response_def test_id_from_string test_metadata_eq
      is_test_request_def peer_id_to_string_def tag_utf8 is_response_def is_message_def)
    (simp add: test_id_def)

text \<open>What the decoding tests write by hand is the layout of the message they expect.\<close>

context bytes_crate
begin

lemma written_frames:
  "written [put P SIGNATURE, put_u16 P 6, put_u8 P 1, put_u8 P 0] =
     frame_wire Discovery (discovery_payload PresenceRequest)"
  "written [put P SIGNATURE, put_u16 P (73 + 5), put_u8 P 2, put_u8 P 0,
     put P (lit ''0123456789012345678901234567890123456789''),
     put P (lit ''0TQEnaM5YHPJ8LJ2KD32bTGdnfK23ScT'')] =
     frame_wire Connect (connection_payload (Request test_id test_tag))"
  "written [put P SIGNATURE, put_u16 P (33 + 5), put_u8 P 2, put_u8 P 1,
     put P (lit ''0TQEnaM5YHPJ8LJ2KD32bTGdnfK23ScT'')] =
     frame_wire Connect (connection_payload (Response test_tag))"
  "written [put P SIGNATURE, put_u16 P (1 + 5), put_u8 P 2, put_u8 P 2] =
     frame_wire Connect (connection_payload CompleteRequest)"
  "written [put P SIGNATURE, put_u16 P (1 + 5), put_u8 P 2, put_u8 P 3] =
     frame_wire Connect (connection_payload CompleteResponse)"
  "written [put P SIGNATURE, put_u16 P (5 + 5), put_u8 P 2, put_u8 P 4, put_u32 P 2001] =
     frame_wire Connect (connection_payload (Failure 2001))"
  using test_id_length test_tag_length
  by (simp_all add: written_def buffer_laws frame_wire_def u16_of_def)
    (simp_all add: test_id_def test_tag_def id_bytes_def)

lemma written_response:
  "written [put P SIGNATURE, put_u16 P 76, put_u8 P 1, put_u8 P 1, put_u16 P 6, put_u16 P 10,
     put P (lit ''test phone''), put P (lit ''0123456789012345678901234567890123456789''),
     put_u16 P 14, put P (lit ''127.0.0.1:5001'')] =
   frame_wire Discovery (discovery_payload (PresenceResponse test_metadata))"
proof -
  have addr: "show_socket_addr (V4 (Ipv4Addr 127 0 0 1) 5001) = lit ''127.0.0.1:5001''"
    by (simp add: show_ipv4_def dec_digits_def radix_digits.simps digit_char_def DOT_def COLON_def
        lit_def byte_of_def)
  have len: "length (lit ''127.0.0.1:5001'') = 14" "length (lit ''test phone'') = 10"
    by (simp_all add: lit_def)
  show ?thesis
    by (simp add: written_def buffer_laws frame_wire_def u16_of_def addr len test_id_length test_metadata_eq
        del: show_socket_addr.simps) (simp add: test_id_def id_bytes_def)
qed

lemma drain_disc:
  assumes "discovery_ok P e"
  shows "drain_one (discovery_decode P) (frame_wire Discovery (discovery_payload e)) inspect = Some (inspect e)"
    and "encode_then_drain (discovery_encode P) (discovery_decode P) e inspect = Some (inspect e)"
  using disc.drain_wire [OF assms] disc.encode_drain [OF assms] discovery_encode_wire [OF assms, of "[]"]
  by simp_all

lemma drain_conn:
  assumes "connection_ok P c"
  shows "drain_one (connection_decode P) (frame_wire Connect (connection_payload c)) inspect = Some (inspect c)"
    and "encode_then_drain (connection_encode P) (connection_decode P) c inspect = Some (inspect c)"
  using conn.drain_wire [OF assms] conn.encode_drain [OF assms] connection_encode_wire [OF assms, of "[]"]
  by simp_all

end

lemma test_secret_decodes:
  "\<exists>bs. base32_decode (lit ''QWERTYUIOPQWERTYUIOPQWERTYUIOPQWERTYUIOP'') = Ok bs \<and> 16 \<le> length bs"
proof -
  have "length (bytes8 bs) = length bs div 8" for bs
    by (induction bs rule: bytes8.induct) (subst bytes8.simps, simp add: le_div_geq)
  moreover have "length (concat (map (\<lambda>c. bits_of 5 (f c)) s)) = 5 * length s" for f :: "u8 \<Rightarrow> nat" and s
    by (induction s) simp_all
  ultimately show ?thesis
    by (simp add: base32_decode_def) (simp add: base32_value_def lit_def)
qed

subsection \<open>The tests pass\<close>

text \<open>
  The repository's own codec tests pass with every implementation of the buffer methods that
  behaves as documented, in builds with and without overflow checks: each of the fourteen returns
  (none loops) without a failing assertion; and the test of message authentication passes at every
  time for every HMAC that behaves as documented.
\<close>

theorem codec_tests_pass:
  assumes "bytes_crate P" and "ring_crate R"
  shows "decode_discovery_presence_request P = Some (Ok ()) \<and>
    decode_discovery_presence_response P = Some (Ok ()) \<and>
    encode_discovery_presence_request P = Some (Ok ()) \<and>
    encode_discovery_presence_response P = Some (Ok ()) \<and>
    decode_connect_request P = Some (Ok ()) \<and>
    decode_connect_response P = Some (Ok ()) \<and>
    decode_connect_complete_request P = Some (Ok ()) \<and>
    decode_connect_complete_response P = Some (Ok ()) \<and>
    decode_connect_failure P = Some (Ok ()) \<and>
    encode_connect_request P = Some (Ok ()) \<and>
    encode_connect_response P = Some (Ok ()) \<and>
    encode_connect_completed_request P = Some (Ok ()) \<and>
    encode_connect_completed_response P = Some (Ok ()) \<and>
    encode_connect_failure P = Some (Ok ()) \<and>
    hmac_peer_id_auth_code P R reference_totp now = Ok ()"
proof -
  note frames = bytes_crate.written_frames [OF assms(1)] bytes_crate.written_response [OF assms(1)]
  note drain = bytes_crate.drain_disc [OF assms(1)] bytes_crate.drain_conn [OF assms(1)]
  have ok: "discovery_ok P PresenceRequest" by simp
  have decode: "decode_discovery_presence_request P = Some (Ok ())"
      "decode_discovery_presence_response P = Some (Ok ())"
      "decode_connect_request P = Some (Ok ())" "decode_connect_response P = Some (Ok ())"
      "decode_connect_complete_request P = Some (Ok ())" "decode_connect_complete_response P = Some (Ok ())"
      "decode_connect_failure P = Some (Ok ())"
    unfolding decode_discovery_presence_request_def decode_discovery_presence_response_def
      decode_connect_request_def decode_connect_response_def decode_connect_complete_request_def
      decode_connect_complete_response_def decode_connect_failure_def frames
    by (simp_all add: ok drain checks_pass del: connection_payload.simps discovery_payload.simps discovery_ok.simps)
  have encode: "encode_discovery_presence_request P = Some (Ok ())"
      "encode_discovery_presence_response P = Some (Ok ())"
      "encode_connect_request P = Some (Ok ())" "encode_connect_response P = Some (Ok ())"
      "encode_connect_completed_request P = Some (Ok ())" "encode_connect_completed_response P = Some (Ok ())"
      "encode_connect_failure P = Some (Ok ())"
    by (simp_all add: encode_discovery_presence_request_def encode_discovery_presence_response_def
        encode_connect_request_def encode_connect_response_def encode_connect_completed_request_def
        encode_connect_completed_response_def encode_connect_failure_def test_id_from_string ok drain checks_pass
        del: discovery_ok.simps flip: test_metadata_eq test_tag_def)
  obtain bs where bs: "base32_decode (lit ''QWERTYUIOPQWERTYUIOPQWERTYUIOPQWERTYUIOP'') = Ok bs" "16 \<le> length bs"
    using test_secret_decodes by blast
  have "hmac_peer_id_auth_code P R reference_totp now = Ok ()"
    using bs ring_crate.verify_sign [OF assms(2)]
    by (simp add: hmac_peer_id_auth_code_def test_id_from_string authenticator_new_def generate_def
        reference_totp_def)
  with decode encode show ?thesis by simp
qed

theorem codec_tests_pass_witness:
  "encode_discovery_presence_response (list_platform True (\<lambda>_. False)) = Some (Ok ()) \<and>
   decode_connect_request (list_platform False (\<lambda>_. True)) = Some (Ok ()) \<and>
   hmac_peer_id_auth_code (list_platform True (\<lambda>_. False)) reference_ring reference_totp 60 = Ok ()"
  using codec_tests_pass [OF list_buffers.bytes_crate_axioms reference_ring.ring_crate_axioms, of True "\<lambda>_. False" 60]
    codec_tests_pass [OF list_buffers.bytes_crate_axioms reference_ring.ring_crate_axioms, of False "\<lambda>_. True" 60]
  by simp

end
