(* ===== verification/Decoding.thy ===== *)
theory Decoding
  imports Proto
begin

text \<open>
  What the decoders do on every input, as functions that look at the whole buffer at once: they
  compute the positions of the fields by arithmetic, with the checks in the order in which a reader
  of the layout meets them, where the decoders of \<open>Proto\<close> consume the buffer piece by piece. Each
  decoder equals its reference. A panic unwinds the task that decodes, so the buffer it leaves
  behind is not compared.
\<close>

subsection \<open>Views of a buffer\<close>

datatype header_view = NeedMore | NoPacket | UnknownType u8 bytes | Payload message_type bytes

definition u16_at :: "nat \<Rightarrow> bytes \<Rightarrow> u16" where
  "u16_at i s = be16 (s ! i) (s ! (i + 1))"

definition u32_at :: "nat \<Rightarrow> bytes \<Rightarrow> u32" where
  "u32_at i s = be32 (s ! i) (s ! (i + 1)) (s ! (i + 2)) (s ! (i + 3))"

definition part :: "nat \<Rightarrow> nat \<Rightarrow> bytes \<Rightarrow> bytes" where
  "part i n s = take n (drop i s)"

definition header_view :: "bytes \<Rightarrow> header_view" where
  "header_view src =
     (if length src < 5 then NeedMore
      else if part 0 2 src \<noteq> SIGNATURE then NoPacket
      else if length src < unat (u16_at 2 src) then NeedMore
      else if src ! 4 = 1 then Payload Discovery (drop 5 src)
      else if src ! 4 = 2 then Payload Connect (drop 5 src)
      else UnknownType (src ! 4) (drop 5 src))"

text \<open>The result of a payload as the result of \<open>decode\<close>.\<close>

definition wrap :: "('m, parse_error) outcome \<times> bytes \<Rightarrow> ('m option, parse_error) outcome \<times> bytes" where
  "wrap r = (case r of
       (Ok m, rest) \<Rightarrow> (Ok (Some m), rest)
     | (Err e, rest) \<Rightarrow> (Err e, rest)
     | (Panic, rest) \<Rightarrow> (Panic, rest))"

text \<open>The reference of both decoders up to the payload, of which each reads one type.\<close>

definition decode_reference :: "message_type \<Rightarrow> (bytes \<Rightarrow> ('m, parse_error) outcome \<times> bytes) \<Rightarrow>
    bytes \<Rightarrow> ('m option, parse_error) outcome \<times> bytes" where
  "decode_reference t body src = (case header_view src of
       NeedMore \<Rightarrow> (Ok None, src)
     | NoPacket \<Rightarrow> (Err NotAPacket, src)
     | UnknownType c p \<Rightarrow> (Err (ParseEnum (unat c)), p)
     | Payload t' p \<Rightarrow> if t' \<noteq> t then (Err (MsgType t'), p)
         else wrap (body p))"

definition connection_reference :: "platform \<Rightarrow> bytes \<Rightarrow> (connection, parse_error) outcome \<times> bytes" where
  "connection_reference P p =
     (if p = [] then (Panic, p)
      else if p ! 0 = 0 then
        (if length p < 73 \<or> \<not> utf8_valid (part 1 40 p) \<or> \<not> list_all (is_alphanumeric P) (chars (part 1 40 p))
         then (Panic, p)
         else (Ok (Request (PeerId (part 1 40 p)) (part 41 32 p)), drop 73 p))
      else if p ! 0 = 1 then
        (if length p < 33 then (Panic, p) else (Ok (Response (part 1 32 p)), drop 33 p))
      else if p ! 0 = 2 then (Ok CompleteRequest, drop 1 p)
      else if p ! 0 = 3 then (Ok CompleteResponse, drop 1 p)
      else if p ! 0 = 4 then
        (if length p < 5 then (Panic, p) else (Ok (Failure (u32_at 1 p)), drop 5 p))
      else (Err (ParseEnum (unat (p ! 0))), drop 1 p))"

text \<open>
  \<open>n\<close> and \<open>a\<close> are the lengths of the name and of the address. An identifier that is refused is an
  error before the address is looked at; the device type is looked at last.
\<close>

definition discovery_reference :: "platform \<Rightarrow> bytes \<Rightarrow> (discovery_event, parse_error) outcome \<times> bytes" where
  "discovery_reference P p =
     (if p = [] then (Panic, p)
      else if p ! 0 = 0 then (Ok PresenceRequest, drop 1 p)
      else if p ! 0 \<noteq> 1 then (Err (ParseEnum (unat (p ! 0))), drop 1 p)
      else if length p < 5 then (Panic, p)
      else let n = unat (u16_at 3 p); name = part 5 n p; pid = part (5 + n) 40 p in
        if length p < 45 + n \<or> \<not> utf8_valid name \<or> \<not> utf8_valid pid then (Panic, p)
        else if \<not> list_all (is_alphanumeric P) (chars pid)
          then (Err (ParseId IdInvalidCharacters), drop (45 + n) p)
        else if length p < 47 + n then (Panic, p)
        else let a = unat (u16_at (45 + n) p); addr = part (47 + n) a p; rest = drop (47 + n + a) p in
          if length p < 47 + n + a \<or> \<not> utf8_valid addr then (Panic, p)
          else (case parse_socket_addr addr of
              Ok sa \<Rightarrow> (case device_type_try_from (u16_at 1 p) of
                  Ok t \<Rightarrow> (Ok (PresenceResponse \<lparr>pm_name = name, pm_typ = t, pm_id = PeerId pid, pm_addr = sa\<rparr>), rest)
                | Err code \<Rightarrow> (Err (ParseEnum code), rest)
                | Panic \<Rightarrow> (Panic, rest))
            | Err _ \<Rightarrow> (Err ParseAddr, rest)
            | Panic \<Rightarrow> (Panic, rest)))"

text \<open>Results that agree, with the buffer they leave except after a panic.\<close>

definition agrees :: "('a, 'e) outcome \<times> bytes \<Rightarrow> ('a, 'e) outcome \<times> bytes \<Rightarrow> bool" where
  "agrees r r' \<longleftrightarrow> fst r = fst r' \<and> (fst r \<noteq> Panic \<longrightarrow> snd r = snd r')"

lemma agrees_refl [simp]: "agrees r r"
  by (simp add: agrees_def)

subsection \<open>Reading at positions\<close>

context bytes_crate
begin

lemma get_u8_eq: "get_u8 P s = (if s = [] then None else Some (s ! 0, drop 1 s))"
  by (cases s) (simp_all add: buffer_laws)

lemma get_u16_eq: "get_u16 P s = (if length s < 2 then None else Some (u16_at 0 s, drop 2 s))"
proof (cases "length s < 2")
  case False
  then obtain a b t where "s = a # b # t" by (auto simp: numeral_eq_Suc Suc_le_length_iff not_less)
  then show ?thesis by (simp add: buffer_laws u16_at_def)
qed (simp add: buffer_laws)

lemma get_u32_eq: "get_u32 P s = (if length s < 4 then None else Some (u32_at 0 s, drop 4 s))"
proof (cases "length s < 4")
  case False
  then obtain a b c d t where "s = a # b # c # d # t" by (auto simp: numeral_eq_Suc Suc_le_length_iff not_less)
  then show ?thesis by (simp add: buffer_laws u32_at_def numeral_eq_Suc)
qed (simp add: buffer_laws)

lemma split_to_eq: "split_to P n s = (if length s < n then None else Some (part 0 n s, drop n s))"
  by (simp add: buffer_laws part_def)

lemma at_drop: "i + k + 2 \<le> length s \<Longrightarrow> u16_at i (drop k s) = u16_at (k + i) s"
  "i + k + 4 \<le> length s \<Longrightarrow> u32_at i (drop k s) = u32_at (k + i) s"
  "part i n (drop k s) = part (k + i) n s"
  by (simp_all add: u16_at_def u32_at_def part_def add_ac)

lemmas read_at = get_u8_eq get_u16_eq get_u32_eq split_to_eq at_drop

lemma header_decode_view:
  "header_decode P src = (case header_view src of
       NeedMore \<Rightarrow> (Ok None, src)
     | NoPacket \<Rightarrow> (Err NotAPacket, src)
     | UnknownType c p \<Rightarrow> (Err (ParseEnum (unat c)), p)
     | Payload t p \<Rightarrow> (Ok (Some \<lparr>h_length = u16_at 2 src, h_message_type = t\<rparr>), p))"
proof (cases "5 \<le> length src \<and> take 2 src = SIGNATURE")
  case True
  then obtain l c s where src: "src = SIGNATURE @ be16_bytes l @ c # s" using header_split by metis
  have at: "u16_at 2 src = l" "src ! 4 = c" "part 0 2 src = SIGNATURE" "drop 5 src = s" "length src = 5 + length s"
    by (simp_all add: src u16_at_def part_def SIGNATURE_def be16_bytes_def)
  have "header_view src = (if length s + 5 < unat l then NeedMore
      else if c = 1 then Payload Discovery s else if c = 2 then Payload Connect s else UnknownType c s)"
    by (simp add: header_view_def at)
  then show ?thesis
    unfolding at(1) by (simp add: src header_decode_frame message_type_try_from_def)
next
  case False
  then show ?thesis
    by (cases "length src < 5") (auto simp: header_decode_short header_decode_not_a_packet header_view_def part_def)
qed

lemma connection_body_reference: "agrees (connection_body P p) (wrap (connection_reference P p))"
proof (cases "p = []")
  case False
  have short: "length (part 1 40 p) = 40" if "41 \<le> length p" using that by (simp add: part_def)
  show ?thesis
    using False short
    by (auto simp: connection_body_def connection_reference_def wrap_def agrees_def sbind_def spanic_def slift_def
        sret_def serr_def read_at from_utf8_def from_string_def)
qed (simp add: connection_body_def connection_reference_def wrap_def agrees_def sbind_def spanic_def read_at)

text \<open>Reading the next field of a buffer of which \<open>k\<close> bytes have been consumed.\<close>

lemma bind_u8_at: "k < length p \<Longrightarrow> sbind (spanic (get_u8 P)) f (drop k p) = f (p ! k) (drop (k + 1) p)"
  by (simp add: sbind_def spanic_def get_u8_eq)

lemma bind_u16_at:
  assumes "k \<le> length p"
  shows "sbind (spanic (get_u16 P)) f (drop k p) =
    (if length p < k + 2 then (Panic, drop k p) else f (u16_at k p) (drop (k + 2) p))"
proof -
  have "length p - k < 2 \<longleftrightarrow> length p < k + 2" using assms by linarith
  then show ?thesis using at_drop(1) [of 0 k p] by (simp add: sbind_def spanic_def get_u16_eq add.commute)
qed

lemma bind_part_at:
  assumes "k \<le> length p"
  shows "sbind (spanic (split_to P n)) f (drop k p) =
    (if length p < k + n then (Panic, drop k p) else f (part k n p) (drop (k + n) p))"
proof -
  have "length p - k < n \<longleftrightarrow> length p < k + n" using assms by linarith
  then show ?thesis by (simp add: sbind_def spanic_def split_to_eq at_drop(3) add.commute)
qed

lemma bind_checks:
  "sbind (slift (unwrap (from_utf8 s))) f t = (if utf8_valid s then f s t else (Panic, t))"
  "length s = 40 \<Longrightarrow> sbind (slift (map_err ParseId (from_string P s))) g t =
     (if list_all (is_alphanumeric P) (chars s) then g (PeerId s) t else (Err (ParseId IdInvalidCharacters), t))"
  by (simp_all add: sbind_def slift_def from_utf8_def from_string_def)

lemma bind_last:
  "sbind (slift (map_err (\<lambda>_. ParseAddr) r)) f t =
     (case r of Ok a \<Rightarrow> f a t | Err _ \<Rightarrow> (Err ParseAddr, t) | Panic \<Rightarrow> (Panic, t))"
  "sbind (slift (map_err parse_error_of_primitive r')) f' t =
     (case r' of Ok a \<Rightarrow> f' a t | Err e \<Rightarrow> (Err (ParseEnum e), t) | Panic \<Rightarrow> (Panic, t))"
  by (cases r; cases r'; simp add: sbind_def slift_def parse_error_of_primitive_def)+

lemma part_length: "k + n \<le> length p \<Longrightarrow> length (part k n p) = n"
  by (simp add: part_def)

lemma discovery_body_reference: "agrees (discovery_body P p) (wrap (discovery_reference P p))"
proof (cases "p \<noteq> [] \<and> p ! 0 = 1 \<and> 5 \<le> length p")
  case True
  define n where "n = unat (u16_at 3 p)"
  have first: "sbind (spanic (get_u8 P)) f p = f 1 (drop 1 p)"
      "sbind (spanic (get_u16 P)) g (drop (Suc 0) p) = g (u16_at 1 p) (drop 3 p)"
      "sbind (spanic (get_u16 P)) g (drop 3 p) = g (u16_at 3 p) (drop 5 p)"
    for f :: "u8 \<Rightarrow> (bytes, discovery_event option, parse_error) call" and g
    using True bind_u8_at [of 0 p f] bind_u16_at [of 1 p g] bind_u16_at [of 3 p g]
    by (simp_all add: eval_nat_numeral)
  have body: "discovery_body P p = sbind (spanic (split_to P n)) (\<lambda>name.
      sbind (slift (unwrap (from_utf8 name))) (\<lambda>device_name.
      sbind (spanic (split_to P 40)) (\<lambda>device_id_raw.
      sbind (slift (unwrap (from_utf8 device_id_raw))) (\<lambda>device_id.
      sbind (slift (map_err ParseId (from_string P device_id))) (\<lambda>pid.
      sbind (spanic (get_u16 P)) (\<lambda>device_addr_length.
      sbind (spanic (split_to P (unat device_addr_length))) (\<lambda>device_addr_bytes.
      sbind (slift (unwrap (from_utf8 device_addr_bytes))) (\<lambda>device_addr_str.
      sbind (slift (map_err (\<lambda>_. ParseAddr) (parse_socket_addr device_addr_str))) (\<lambda>device_addr.
      sbind (slift (map_err parse_error_of_primitive (device_type_try_from (u16_at 1 p)))) (\<lambda>device_type.
      sret (Some (PresenceResponse \<lparr>pm_name = device_name, pm_typ = device_type, pm_id = pid,
        pm_addr = device_addr\<rparr>)))))))))))) (drop 5 p)"
    unfolding discovery_body_def n_def by (simp add: first)
  show ?thesis
  proof (cases "length p < 45 + n \<or> \<not> utf8_valid (part 5 n p) \<or> \<not> utf8_valid (part (5 + n) 40 p)")
    case bad: True
    then have "fst (discovery_body P p) = Panic"
      using True unfolding body by (auto simp: bind_part_at bind_checks(1))
    with True bad show ?thesis
      by (simp add: agrees_def wrap_def discovery_reference_def Let_def flip: n_def)
  next
    case good: False
    then have len: "length (part (5 + n) 40 p) = 40" by (simp add: part_length)
    show ?thesis
      using True good len unfolding body discovery_reference_def
      by (simp add: bind_part_at bind_checks bind_u16_at bind_last Let_def sret_def flip: n_def)
        (auto simp: agrees_def wrap_def outcome_simps parse_error_of_primitive_def split: outcome.split)
  qed
next
  case False
  then show ?thesis
    by (auto simp: discovery_body_def discovery_reference_def wrap_def agrees_def sbind_def spanic_def
        sret_def serr_def read_at)
qed

lemma decode_references:
  "agrees (connection_decode P src) (decode_reference Connect (connection_reference P) src)"
  "agrees (discovery_decode P src) (decode_reference Discovery (discovery_reference P) src)"
  by (auto simp: connection_decode_def discovery_decode_def sbind_def header_decode_view decode_reference_def
      sret_def serr_def connection_body_reference discovery_body_reference split: header_view.split)

end

subsection \<open>The properties\<close>

text \<open>
  C9. Both decoders equal a reference on every buffer whatsoever: asking for more bytes (fewer than five,
  or fewer than the length field says), refusing a wrong signature, an unknown message type, the
  other codec's type or an unknown kind of message, panicking on a payload that is too short or not
  UTF-8, refusing a bad identifier, address or device type, or returning the message whose fields
  stand at the computed positions; the buffer left behind is the same too, except after a panic.
\<close>

theorem decoders_equal_reference:
  assumes "bytes_crate P"
  shows "agrees (connection_decode P src) (decode_reference Connect (connection_reference P) src) \<and>
    agrees (discovery_decode P src) (decode_reference Discovery (discovery_reference P) src)"
  using bytes_crate.decode_references [OF assms] by blast

theorem decoders_equal_reference_witness:
  "connection_decode (list_platform True (\<lambda>_. False)) [64, 64, 0, 0, 2, 4, 0, 0, 7, 209, 99] =
     (Ok (Some (Failure 2001)), [99]) \<and>
   discovery_decode (list_platform True (\<lambda>_. False)) [64, 64, 0, 0, 2, 4] = (Err (MsgType Connect), [4])"
proof -
  let ?P = "list_platform True (\<lambda>_. False)"
  let ?c = "[64, 64, 0, 0, 2, 4, 0, 0, 7, 209, 99] :: bytes" and ?d = "[64, 64, 0, 0, 2, 4] :: bytes"
  have "decode_reference Connect (connection_reference ?P) ?c = (Ok (Some (Failure 2001)), [99])"
    "decode_reference Discovery (discovery_reference ?P) ?d = (Err (MsgType Connect), [4])"
    by (simp_all add: decode_reference_def header_view_def connection_reference_def part_def SIGNATURE_def u16_at_def
        u32_at_def be16_def be32_def wrap_def)
  with decoders_equal_reference [OF list_buffers.bytes_crate_axioms, of True "\<lambda>_. False" ?c]
    decoders_equal_reference [OF list_buffers.bytes_crate_axioms, of True "\<lambda>_. False" ?d]
  show ?thesis by (simp add: agrees_def prod_eq_iff)
qed

end
