(* ===== verification/Async.thy ===== *)
theory Async
  imports Proto
begin

text \<open>
  The manager's state (\<open>P2pManager\<close> of \<^verbatim>\<open>crate/p2p/src/manager.rs\<close>) and the asynchronous code that works on
  it. An \<open>async fn\<close> is a tree of effects: it either ends, or performs one effect and continues
  with the answer of its environment. Between two effects other tasks may run, so an effect on
  the manager is one atomic operation of a concurrent map, set or channel, and several in a row
  are several effects. Running a tree alone (\<open>exec\<close>), running it against a script of answers
  (\<open>runs\<close>) and running it among other tasks (theory \<open>System\<close>) are semantics of the same trees.
\<close>

subsection \<open>The manager\<close>

record p2p_config =
  cfg_id :: peer_id
  cfg_device :: device_type
  cfg_name :: rstring
  cfg_multicast :: socket_addr
  cfg_p2p_addr :: socket_addr

text \<open>
  The concurrent maps are maps and the concurrent set is a set; a channel is the sequence of the
  messages sent on it, since a failing send is only logged. Nothing is ever sent on the internal
  channel, whose messages have no values.
\<close>

record 't manager =
  m_id :: peer_id
  m_metadata :: peer_metadata
  known_peers :: "peer_id \<rightharpoonup> 't peer_candidate"
  discovered_peers :: "peer_id \<rightharpoonup> 't peer_candidate"
  connected_peers :: "peer_id set"
  discovery_channel :: "discovery_event list"
  app_channel :: "p2p_event list"

definition send_app :: "p2p_event \<Rightarrow> 't manager \<Rightarrow> 't manager" where
  "send_app e m = m\<lparr>app_channel := app_channel m @ [e]\<rparr>"

definition send_discovery :: "discovery_event \<Rightarrow> 't manager \<Rightarrow> 't manager" where
  "send_discovery e m = m\<lparr>discovery_channel := discovery_channel m @ [e]\<rparr>"

definition insert_connected :: "peer_id \<Rightarrow> 't manager \<Rightarrow> 't manager" where
  "insert_connected i m = m\<lparr>connected_peers := insert i (connected_peers m)\<rparr>"

definition remove_connected :: "peer_id \<Rightarrow> 't manager \<Rightarrow> 't manager" where
  "remove_connected i m = m\<lparr>connected_peers := connected_peers m - {i}\<rparr>"

definition insert_known :: "peer_id \<Rightarrow> 't peer_candidate \<Rightarrow> 't manager \<Rightarrow> 't manager" where
  "insert_known i c m = m\<lparr>known_peers := (known_peers m)(i \<mapsto> c)\<rparr>"

definition remove_known :: "peer_id \<Rightarrow> 't manager \<Rightarrow> 't manager" where
  "remove_known i m = m\<lparr>known_peers := (known_peers m)(i := None)\<rparr>"

definition insert_discovered :: "peer_id \<Rightarrow> 't peer_candidate \<Rightarrow> 't manager \<Rightarrow> 't manager" where
  "insert_discovered i c m = m\<lparr>discovered_peers := (discovered_peers m)(i \<mapsto> c)\<rparr>"

lemmas manager_ops = send_app_def send_discovery_def insert_connected_def remove_connected_def
  insert_known_def remove_known_def insert_discovered_def

subsection \<open>Trees of effects\<close>

text \<open>
  What \<open>timeout(.., frame.next()).await\<close> gives: the timeout, the end of the stream, or an item,
  which is a message, a parse error, or a panic of the decoder.
\<close>

datatype received = TimedOut | Closed | Frame "(connection, parse_error) outcome"

text \<open>
  \<open>Atomic u k\<close> applies one operation to the manager and continues with what it saw; \<open>Tcp\<close>,
  \<open>Gen\<close>, \<open>Send\<close> and \<open>Next\<close> await a connection, a one-time password, the end of a send and the
  next frame; \<open>Spawn\<close> starts the transport loop of a connection. \<open>Crash\<close> is a panic.
\<close>

datatype ('t, 'r) prog =
    Done 'r
  | Crash
  | Atomic "'t manager \<Rightarrow> 't manager" "'t manager \<Rightarrow> ('t, 'r) prog"
  | Tcp socket_addr "conn option \<Rightarrow> ('t, 'r) prog"
  | Gen "'t pairing_authenticator" "(rstring, pairing_error) outcome \<Rightarrow> ('t, 'r) prog"
  | Send conn connection "(unit, parse_error) outcome \<Rightarrow> ('t, 'r) prog"
  | Next conn "received \<Rightarrow> ('t, 'r) prog"
  | Spawn conn peer_id "('t, 'r) prog"

primrec pbind :: "('t, 'a) prog \<Rightarrow> ('a \<Rightarrow> ('t, 'b) prog) \<Rightarrow> ('t, 'b) prog" where
  "pbind (Done a) f = f a"
| "pbind Crash f = Crash"
| "pbind (Atomic u k) f = Atomic u (\<lambda>m. pbind (k m) f)"
| "pbind (Tcp a k) f = Tcp a (\<lambda>x. pbind (k x) f)"
| "pbind (Gen a k) f = Gen a (\<lambda>x. pbind (k x) f)"
| "pbind (Send c msg k) f = Send c msg (\<lambda>x. pbind (k x) f)"
| "pbind (Next c k) f = Next c (\<lambda>x. pbind (k x) f)"
| "pbind (Spawn c i p) f = Spawn c i (pbind p f)"

text \<open>Running a tree of manager operations without interruption, up to its first await.\<close>

primrec exec :: "('t, 'r) prog \<Rightarrow> 't manager \<Rightarrow> ('t, 'r) prog \<times> 't manager" where
  "exec (Done r) m = (Done r, m)"
| "exec Crash m = (Crash, m)"
| "exec (Atomic u k) m = exec (k m) (u m)"
| "exec (Tcp a k) m = (Tcp a k, m)"
| "exec (Gen a k) m = (Gen a k, m)"
| "exec (Send c msg k) m = (Send c msg k, m)"
| "exec (Next c k) m = (Next c k, m)"
| "exec (Spawn c i p) m = (Spawn c i p, m)"

text \<open>
  One effect together with the answer it got (for an operation on the manager, the states before
  and after it), and running a tree against a script of answers.
\<close>

datatype 't label =
    LAtomic "'t manager" "'t manager"
  | LTcp socket_addr "conn option"
  | LGen "'t pairing_authenticator" "(rstring, pairing_error) outcome"
  | LSend conn connection "(unit, parse_error) outcome"
  | LNext conn received
  | LSpawn conn peer_id

fun step :: "('t, 'r) prog \<Rightarrow> 't label \<Rightarrow> ('t, 'r) prog option" where
  "step (Atomic u k) (LAtomic m m') = (if m' = u m then Some (k m) else None)"
| "step (Tcp a k) (LTcp a' x) = (if a = a' then Some (k x) else None)"
| "step (Gen a k) (LGen a' x) = (if a = a' then Some (k x) else None)"
| "step (Send c msg k) (LSend c' msg' x) = (if c = c' \<and> msg = msg' then Some (k x) else None)"
| "step (Next c k) (LNext c' x) = (if c = c' then Some (k x) else None)"
| "step (Spawn c i p) (LSpawn c' i') = (if c = c' \<and> i = i' then Some p else None)"
| "step _ _ = None"

fun runs :: "('t, 'r) prog \<Rightarrow> 't label list \<Rightarrow> ('t, 'r) prog option" where
  "runs p [] = Some p"
| "runs p (l # ls) = (case step p l of None \<Rightarrow> None | Some q \<Rightarrow> runs q ls)"

subsection \<open>Stepping and binding\<close>

text \<open>Inversion: what a script has to look like for each kind of effect.\<close>

lemma runs_Done_iff: "runs (Done r) ls = Some p \<longleftrightarrow> ls = [] \<and> p = Done r"
  by (cases ls) auto

lemma runs_Crash_iff: "runs Crash ls = Some p \<longleftrightarrow> ls = [] \<and> p = Crash"
  by (cases ls) auto

definition ended :: "('t, 'r) prog \<Rightarrow> bool" where
  "ended p = (case p of Done _ \<Rightarrow> True | Crash \<Rightarrow> True | _ \<Rightarrow> False)"

lemma ended_simps [simp]:
  "ended (Done r)" "ended Crash" "\<not> ended (Atomic u k)" "\<not> ended (Tcp a j)" "\<not> ended (Gen b g)"
  "\<not> ended (Send c msg s)" "\<not> ended (Next c n)" "\<not> ended (Spawn c i q)"
  by (simp_all add: ended_def)

lemma runs_effect_iff:
  assumes "ended p"
  shows "runs (Atomic u k) ls = Some p \<longleftrightarrow> (\<exists>m rest. ls = LAtomic m (u m) # rest \<and> runs (k m) rest = Some p)"
    and "runs (Tcp a j) ls = Some p \<longleftrightarrow> (\<exists>x rest. ls = LTcp a x # rest \<and> runs (j x) rest = Some p)"
    and "runs (Gen b g) ls = Some p \<longleftrightarrow> (\<exists>x rest. ls = LGen b x # rest \<and> runs (g x) rest = Some p)"
    and "runs (Send c msg s) ls = Some p \<longleftrightarrow>
      (\<exists>x rest. ls = LSend c msg x # rest \<and> runs (s x) rest = Some p)"
    and "runs (Next c n) ls = Some p \<longleftrightarrow> (\<exists>x rest. ls = LNext c x # rest \<and> runs (n x) rest = Some p)"
    and "runs (Spawn c i q) ls = Some p \<longleftrightarrow> (\<exists>rest. ls = LSpawn c i # rest \<and> runs q rest = Some p)"
  using assms
  by (cases ls; cases "hd ls"; auto simp: ended_def split: prog.splits)+

lemmas runs_iffs = runs_Done_iff runs_Crash_iff runs_effect_iff

lemma runs_append: "runs p (ls @ ls') = (case runs p ls of None \<Rightarrow> None | Some q \<Rightarrow> runs q ls')"
  by (induction p ls rule: runs.induct) (auto split: option.splits)

lemma step_pbind: "\<not> ended p \<Longrightarrow> step (pbind p f) l = map_option (\<lambda>q. pbind q f) (step p l)"
  by (cases p; cases l) auto

text \<open>A script of a bound tree that ends is a script of the first tree and one of the second.\<close>

lemma runs_pbind_iff:
  assumes "ended q"
  shows "runs (pbind p f) ls = Some q \<longleftrightarrow>
    (\<exists>a ls1 ls2. ls = ls1 @ ls2 \<and> runs p ls1 = Some (Done a) \<and> runs (f a) ls2 = Some q) \<or>
    (runs p ls = Some Crash \<and> q = Crash)"
proof (induction ls arbitrary: p)
  case Nil
  with assms show ?case by (cases p) auto
next
  case (Cons l ls)
  show ?case
  proof (cases "ended p")
    case True
    then show ?thesis
      by (cases p) (auto simp: runs_Done_iff runs_Crash_iff ended_def)
  next
    case False
    then have nd: "\<And>a ls. runs p ls = Some (Done a) \<Longrightarrow> ls \<noteq> []"
      by (auto simp: ended_def)
    show ?thesis
    proof (cases "step p l")
      case None
      with False nd show ?thesis
        by (auto simp: step_pbind Cons_eq_append_conv)
    next
      case (Some p')
      have "(\<exists>a ls1 ls2. l # ls = ls1 @ ls2 \<and> runs p ls1 = Some (Done a) \<and> runs (f a) ls2 = Some q)
        \<longleftrightarrow> (\<exists>a ls1 ls2. ls = ls1 @ ls2 \<and> runs p' ls1 = Some (Done a) \<and> runs (f a) ls2 = Some q)"
        (is "?A \<longleftrightarrow> ?B")
      proof
        assume ?A
        then obtain a ls1 ls2 where h: "l # ls = ls1 @ ls2" "runs p ls1 = Some (Done a)"
            "runs (f a) ls2 = Some q"
          by blast
        moreover obtain ls1' where "ls1 = l # ls1'"
          using h nd [OF h(2)] by (auto simp: Cons_eq_append_conv)
        ultimately show ?B using Some by auto
      next
        assume ?B
        then obtain a ls1 ls2 where h: "ls = ls1 @ ls2" "runs p' ls1 = Some (Done a)"
            "runs (f a) ls2 = Some q"
          by blast
        with Some have "l # ls = (l # ls1) @ ls2 \<and> runs p (l # ls1) = Some (Done a)" by simp
        with h(3) show ?A by blast
      qed
      with False Some Cons.IH [of p'] show ?thesis
        by (simp add: step_pbind)
    qed
  qed
qed

text \<open>Every tree is well founded: whatever has been answered so far, it can be run to an end.\<close>

lemma runs_to_end: "\<exists>ls q. ended q \<and> runs p ls = Some q"
proof (induction p)
  case (Done r)
  show ?case by (intro exI [of _ "[]"]) simp
next
  case Crash
  show ?case by (intro exI [of _ "[]"]) simp
next
  case (Atomic u k)
  then obtain ls q where "ended q" "runs (k undefined) ls = Some q" by blast
  then show ?case by (intro exI [of _ "LAtomic undefined (u undefined) # ls"]) auto
next
  case (Tcp a k)
  then obtain ls q where "ended q" "runs (k None) ls = Some q" by blast
  then show ?case by (intro exI [of _ "LTcp a None # ls"]) auto
next
  case (Gen a k)
  then obtain ls q where "ended q" "runs (k Panic) ls = Some q" by blast
  then show ?case by (intro exI [of _ "LGen a Panic # ls"]) auto
next
  case (Send c msg k)
  then obtain ls q where "ended q" "runs (k Panic) ls = Some q" by blast
  then show ?case by (intro exI [of _ "LSend c msg Panic # ls"]) auto
next
  case (Next c k)
  then obtain ls q where "ended q" "runs (k Closed) ls = Some q" by blast
  then show ?case by (intro exI [of _ "LNext c Closed # ls"]) auto
next
  case (Spawn c i p)
  then obtain ls q where "ended q" "runs p ls = Some q" by blast
  then show ?case by (intro exI [of _ "LSpawn c i # ls"]) auto
qed

lemma runs_length_bound:
  assumes "\<And>ls q. ended q \<Longrightarrow> runs p ls = Some q \<Longrightarrow> length ls \<le> n" and "runs p ls = Some q"
  shows "length ls \<le> n"
proof -
  obtain ls' q' where q': "ended q'" "runs q ls' = Some q'"
    using runs_to_end [of q] by blast
  then have "runs p (ls @ ls') = Some q'"
    using assms(2) by (simp add: runs_append)
  from assms(1) [OF q'(1) this] show ?thesis by simp
qed

end
