(* ===== verification/Handshake.thy ===== *)
theory Handshake
  imports Async
begin

text \<open>
  The connection handshake (\<^verbatim>\<open>crate/p2p/src/net.rs\<close>) with the candidate lookup it asks the manager for
  (\<^verbatim>\<open>manager.rs\<close>) and the creation of a connected peer (\<^verbatim>\<open>peer/peer.rs\<close>). \<open>connect\<close> and \<open>accept\<close> are
  trees of effects; the lemmas say exactly which exchanges make them succeed, what the remote
  side is told when they fail, when they panic, and that they end after a bounded number of
  effects.
\<close>

subsection \<open>The two sides\<close>

definition TIMEOUT_ERR :: u32 where
  "TIMEOUT_ERR = 2001"

definition NOT_FOUND_ERR :: u32 where
  "NOT_FOUND_ERR = 2002"

definition AUTH_ERR :: u32 where
  "AUTH_ERR = 2003"

type_synonym 't handshake = "('t, (peer, handshake_error) outcome) prog"

text \<open>\<open>frame.send(..).await?\<close> and \<open>_ = frame.send(..).await\<close>.\<close>

definition send_or_fail :: "conn \<Rightarrow> connection \<Rightarrow> 't handshake \<Rightarrow> 't handshake" where
  "send_or_fail c msg k = Send c msg (\<lambda>r. case r of
       Ok _ \<Rightarrow> k
     | Err e \<Rightarrow> Done (Err (HsParse e))
     | Panic \<Rightarrow> Crash)"

definition send_failure :: "conn \<Rightarrow> u32 \<Rightarrow> handshake_error \<Rightarrow> 't handshake" where
  "send_failure c code err = Send c (Failure code) (\<lambda>r. case r of
       Panic \<Rightarrow> Crash
     | _ \<Rightarrow> Done (Err err))"

text \<open>
  Waiting for a message for a second: the \<open>let Ok(..) = timeout(..) else\<close>, the \<open>match\<close> on the end of
  the stream and the \<open>?\<close> on the item, which \<open>net.rs\<close> writes out four times.
\<close>

definition next_frame :: "conn \<Rightarrow> (connection \<Rightarrow> 't handshake) \<Rightarrow> 't handshake" where
  "next_frame c k = Next c (\<lambda>x. case x of
       TimedOut \<Rightarrow> send_failure c TIMEOUT_ERR HsTimeout
     | Closed \<Rightarrow> Done (Err HsDisconnect)
     | Frame (Ok msg) \<Rightarrow> k msg
     | Frame (Err e) \<Rightarrow> Done (Err (HsParse e))
     | Frame Panic \<Rightarrow> Crash)"

text \<open>\<open>auth.generate().unwrap()\<close>.\<close>

definition generate_code :: "'t pairing_authenticator \<Rightarrow> (rstring \<Rightarrow> 't handshake) \<Rightarrow> 't handshake" where
  "generate_code auth k = Gen auth (\<lambda>r. case r of Ok code \<Rightarrow> k code | _ \<Rightarrow> Crash)"

text \<open>\<open>Peer::new(..).unwrap()\<close>: spawns the transport loop; it never fails.\<close>

definition peer_new :: "connection_type \<Rightarrow> conn \<Rightarrow> peer_metadata \<Rightarrow> 't handshake" where
  "peer_new conn_type c metadata = Spawn c (pm_id metadata) (Done (Ok
     \<lparr>p_id = pm_id metadata, p_conn_type = conn_type, p_metadata = metadata, p_conn = c\<rparr>))"

definition connect :: "ring_api \<Rightarrow> peer_id \<Rightarrow> conn \<Rightarrow> 't peer_candidate \<Rightarrow> 't handshake" where
  "connect R self_id c cand =
     generate_code (pc_auth cand) (\<lambda>key.
     send_or_fail c (Request self_id (sign R key (id_bytes self_id))) (
     next_frame c (\<lambda>response. case response of
       Response tag \<Rightarrow>
         if verify R key (id_bytes (pc_id cand)) tag \<noteq> Ok () then send_failure c AUTH_ERR HsAuth
         else
           send_or_fail c CompleteRequest (
           next_frame c (\<lambda>complete. case complete of
             CompleteResponse \<Rightarrow> peer_new Client c (pc_metadata cand)
           | _ \<Rightarrow> Done (Err HsMsg)))
     | Failure code \<Rightarrow> Done (Err (HsFailure code))
     | _ \<Rightarrow> Done (Err HsMsg))))"

text \<open>
  \<open>get_peer_candidate\<close> looks into the discovered peers and then, whatever that gave, into the known
  ones: two operations on two concurrent maps.
\<close>

definition get_peer_candidate ::
    "peer_id \<Rightarrow> ('t peer_candidate option \<Rightarrow> ('t, 'r) prog) \<Rightarrow> ('t, 'r) prog" where
  "get_peer_candidate i k =
     Atomic (\<lambda>m. m) (\<lambda>m. let discovered = discovered_peers m i in
     Atomic (\<lambda>m. m) (\<lambda>m. let known = known_peers m i in
     k (case discovered of Some p \<Rightarrow> Some p | None \<Rightarrow> known)))"

definition accept :: "ring_api \<Rightarrow> peer_id \<Rightarrow> conn \<Rightarrow> 't handshake" where
  "accept R self_id c =
     next_frame c (\<lambda>request. case request of
       Request i tag \<Rightarrow>
         get_peer_candidate i (\<lambda>cand. case cand of
           None \<Rightarrow> send_failure c NOT_FOUND_ERR HsNotFound
         | Some p \<Rightarrow>
             generate_code (pc_auth p) (\<lambda>key.
             if verify R key (id_bytes (pc_id p)) tag \<noteq> Ok () then send_failure c AUTH_ERR HsAuth
             else
               send_or_fail c (Response (sign R key (id_bytes self_id))) (
               next_frame c (\<lambda>complete. case complete of
                 CompleteRequest \<Rightarrow>
                   send_or_fail c CompleteResponse (peer_new Server c (pc_metadata p))
               | _ \<Rightarrow> Done (Err HsMsg)))))
     | Failure code \<Rightarrow> Done (Err (HsFailure code))
     | _ \<Rightarrow> Done (Err HsMsg))"

subsection \<open>Scripts of the building blocks\<close>

lemma runs_send_or_fail:
  assumes "ended q"
  shows "runs (send_or_fail c msg k) ls = Some q \<longleftrightarrow>
    (\<exists>rest. ls = LSend c msg (Ok ()) # rest \<and> runs k rest = Some q) \<or>
    (\<exists>e. ls = [LSend c msg (Err e)] \<and> q = Done (Err (HsParse e))) \<or>
    (ls = [LSend c msg Panic] \<and> q = Crash)"
  unfolding send_or_fail_def runs_effect_iff [OF assms]
  by (auto simp: runs_Done_iff runs_Crash_iff split: outcome.split_asm)

lemma runs_send_failure:
  fixes ls :: "'t label list"
  assumes "ended q"
  shows "runs (send_failure c code err) ls = Some q \<longleftrightarrow>
    (\<exists>r. ls = [LSend c (Failure code) r] \<and> q = (if r = Panic then Crash else Done (Err err)))"
proof -
  have "runs (case r of Panic \<Rightarrow> Crash | _ \<Rightarrow> Done (Err err)) rest = Some q \<longleftrightarrow>
      rest = [] \<and> q = (if r = Panic then Crash else Done (Err err))"
    for r :: "(unit, parse_error) outcome" and rest :: "'t label list"
    by (cases r) (auto simp: runs_Done_iff runs_Crash_iff)
  then show ?thesis
    unfolding send_failure_def runs_effect_iff [OF assms] by blast
qed

lemma runs_next_frame:
  assumes "ended q"
  shows "runs (next_frame c k) ls = Some q \<longleftrightarrow>
    (\<exists>msg rest. ls = LNext c (Frame (Ok msg)) # rest \<and> runs (k msg) rest = Some q) \<or>
    (\<exists>e. ls = [LNext c (Frame (Err e))] \<and> q = Done (Err (HsParse e))) \<or>
    (ls = [LNext c (Frame Panic)] \<and> q = Crash) \<or>
    (ls = [LNext c Closed] \<and> q = Done (Err HsDisconnect)) \<or>
    (\<exists>rest. ls = LNext c TimedOut # rest \<and> runs (send_failure c TIMEOUT_ERR HsTimeout) rest = Some q)"
  unfolding next_frame_def runs_effect_iff [OF assms]
  by (auto simp: runs_Done_iff runs_Crash_iff split: outcome.split_asm received.split_asm)

lemma runs_generate_code:
  assumes "ended q"
  shows "runs (generate_code a k) ls = Some q \<longleftrightarrow>
    (\<exists>code rest. ls = LGen a (Ok code) # rest \<and> runs (k code) rest = Some q) \<or>
    (\<exists>r. ls = [LGen a r] \<and> \<not> is_ok r \<and> q = Crash)"
  unfolding generate_code_def runs_effect_iff [OF assms]
  by (auto simp: runs_Crash_iff is_ok_def split: outcome.split_asm)

lemma runs_peer_new:
  assumes "ended q"
  shows "runs (peer_new t c md) ls = Some q \<longleftrightarrow> ls = [LSpawn c (pm_id md)] \<and>
    q = Done (Ok \<lparr>p_id = pm_id md, p_conn_type = t, p_metadata = md, p_conn = c\<rparr>)"
  unfolding peer_new_def runs_effect_iff [OF assms] by (auto simp: runs_Done_iff)

lemma runs_get_peer_candidate:
  assumes "ended q"
  shows "runs (get_peer_candidate i k) ls = Some q \<longleftrightarrow>
    (\<exists>m m' rest. ls = LAtomic m m # LAtomic m' m' # rest \<and>
      runs (k (case discovered_peers m i of Some p \<Rightarrow> Some p | None \<Rightarrow> known_peers m' i)) rest = Some q)"
  unfolding get_peer_candidate_def runs_effect_iff [OF assms] by (auto simp: Let_def runs_effect_iff [OF assms])

lemma runs_branches:
  "runs (if b then x else y) ls = Some q \<longleftrightarrow>
     (b \<and> runs x ls = Some q) \<or> (\<not> b \<and> runs y ls = Some q)"
  "runs (case v of None \<Rightarrow> x | Some w \<Rightarrow> z w) ls = Some q \<longleftrightarrow>
     (v = None \<and> runs x ls = Some q) \<or> (\<exists>w. v = Some w \<and> runs (z w) ls = Some q)"
  "runs (case msg of Request i t \<Rightarrow> f1 i t | Response t \<Rightarrow> f2 t | CompleteRequest \<Rightarrow> f3
     | CompleteResponse \<Rightarrow> f4 | Failure code \<Rightarrow> f5 code) ls = Some q \<longleftrightarrow>
     (\<exists>i t. msg = Request i t \<and> runs (f1 i t) ls = Some q) \<or>
     (\<exists>t. msg = Response t \<and> runs (f2 t) ls = Some q) \<or>
     (msg = CompleteRequest \<and> runs f3 ls = Some q) \<or>
     (msg = CompleteResponse \<and> runs f4 ls = Some q) \<or>
     (\<exists>code. msg = Failure code \<and> runs (f5 code) ls = Some q)"
  subgoal by simp
  subgoal by (cases v) simp_all
  subgoal by (cases msg) simp_all
  done

lemmas handshake_runs = runs_branches runs_send_or_fail runs_send_failure runs_next_frame runs_generate_code
  runs_peer_new runs_get_peer_candidate runs_Done_iff runs_Crash_iff

subsection \<open>Which exchanges succeed\<close>

context ring_crate
begin

text \<open>The exchange that authenticates both sides, seen from the client and from the host.\<close>

lemma connect_Ok_iff:
  "runs (connect R self_id c cand) ls = Some (Done (Ok p)) \<longleftrightarrow>
   (\<exists>key. ls =
      [LGen (pc_auth cand) (Ok key),
       LSend c (Request self_id (sign R key (id_bytes self_id))) (Ok ()),
       LNext c (Frame (Ok (Response (sign R key (id_bytes (pc_id cand)))))),
       LSend c CompleteRequest (Ok ()),
       LNext c (Frame (Ok CompleteResponse)),
       LSpawn c (pm_id (pc_metadata cand))]) \<and>
   p = \<lparr>p_id = pm_id (pc_metadata cand), p_conn_type = Client,
        p_metadata = pc_metadata cand, p_conn = c\<rparr>"
  unfolding connect_def
  by (auto simp: handshake_runs simp del: runs.simps)

lemma accept_Ok_iff:
  "runs (accept R self_id c) ls = Some (Done (Ok p)) \<longleftrightarrow>
   (\<exists>i key m m' cand. ls =
      [LNext c (Frame (Ok (Request i (sign R key (id_bytes (pc_id cand)))))),
       LAtomic m m, LAtomic m' m',
       LGen (pc_auth cand) (Ok key),
       LSend c (Response (sign R key (id_bytes self_id))) (Ok ()),
       LNext c (Frame (Ok CompleteRequest)),
       LSend c CompleteResponse (Ok ()),
       LSpawn c (pm_id (pc_metadata cand))] \<and>
     (case discovered_peers m i of Some d \<Rightarrow> Some d | None \<Rightarrow> known_peers m' i) = Some cand \<and>
     p = \<lparr>p_id = pm_id (pc_metadata cand), p_conn_type = Server,
          p_metadata = pc_metadata cand, p_conn = c\<rparr>)"
  unfolding accept_def
  by (auto simp: handshake_runs simp del: runs.simps)

end

subsection \<open>Failures, panics, length\<close>

text \<open>What a failing handshake tells the other side.\<close>

fun reported :: "handshake_error \<Rightarrow> u32 option" where
  "reported HsTimeout = Some TIMEOUT_ERR"
| "reported HsNotFound = Some NOT_FOUND_ERR"
| "reported HsAuth = Some AUTH_ERR"
| "reported _ = None"

definition failure_sent :: "conn \<Rightarrow> 't label list \<Rightarrow> u32 option" where
  "failure_sent c ls = (case ls of [] \<Rightarrow> None | _ \<Rightarrow>
     (case last ls of LSend c' (Failure code) _ \<Rightarrow> if c' = c then Some code else None | _ \<Rightarrow> None))"

definition spawns :: "'t label \<Rightarrow> bool" where
  "spawns l = (case l of LSpawn _ _ \<Rightarrow> True | _ \<Rightarrow> False)"

lemma handshake_Err:
  assumes "runs (connect R self_id c cand) ls = Some (Done (Err e)) \<or>
    runs (accept R self_id c) ls = Some (Done (Err e))"
  shows "failure_sent c ls = reported e \<and> \<not> list_ex spawns ls"
  using assms unfolding connect_def accept_def
  by (auto simp: handshake_runs failure_sent_def spawns_def simp del: runs.simps split: if_split_asm)

text \<open>The effects whose answer makes the task panic.\<close>

definition panic_answer :: "'t label \<Rightarrow> bool" where
  "panic_answer l = (case l of LGen _ r \<Rightarrow> \<not> is_ok r | LSend _ _ r \<Rightarrow> r = Panic
     | LNext _ x \<Rightarrow> x = Frame Panic | _ \<Rightarrow> False)"

lemma handshake_Crash_iff:
  assumes "ended q" and "runs (connect R self_id c cand) ls = Some q \<or> runs (accept R self_id c) ls = Some q"
  shows "(q = Crash \<longleftrightarrow> panic_answer (last ls)) \<and> q \<noteq> Done Panic"
  using assms unfolding connect_def accept_def
  by (auto simp: handshake_runs panic_answer_def is_ok_def simp del: runs.simps split: if_split_asm)

lemma handshake_length:
  assumes "ended q"
  shows "runs (connect R self_id c cand) ls = Some q \<Longrightarrow> length ls \<le> 6"
    and "runs (accept R self_id c) ls = Some q \<Longrightarrow> length ls \<le> 8"
  using assms unfolding connect_def accept_def
  by (auto simp: handshake_runs simp del: runs.simps)

subsection \<open>The properties\<close>

text \<open>
  C3. When the client side succeeds: \<open>connect\<close> returns a peer exactly if it got a one-time password
  from the candidate's authenticator, sent its identifier signed with it, received the
  candidate's identifier signed with the same password, and then completed the exchange; the
  peer carries the candidate's metadata and its transport loop is started.
\<close>

theorem connect_succeeds_iff:
  assumes "ring_crate R"
  shows "runs (connect R self_id c cand) ls = Some (Done (Ok p)) \<longleftrightarrow>
   (\<exists>key. ls =
      [LGen (pc_auth cand) (Ok key),
       LSend c (Request self_id (sign R key (id_bytes self_id))) (Ok ()),
       LNext c (Frame (Ok (Response (sign R key (id_bytes (pc_id cand)))))),
       LSend c CompleteRequest (Ok ()),
       LNext c (Frame (Ok CompleteResponse)),
       LSpawn c (pm_id (pc_metadata cand))]) \<and>
   p = \<lparr>p_id = pm_id (pc_metadata cand), p_conn_type = Client,
        p_metadata = pc_metadata cand, p_conn = c\<rparr>"
  using assms by (rule ring_crate.connect_Ok_iff)

definition test_candidate :: "totp_state peer_candidate" where
  "test_candidate = candidate_new test_metadata
     \<lparr>totp = \<lparr>ts_digits = 8, ts_skew = 1, ts_step = 15, ts_secret = replicate 20 7\<rparr>\<rparr>"

theorem connect_succeeds_iff_witness:
  "runs (connect reference_ring peer_id_default 3 test_candidate)
     [LGen (pc_auth test_candidate) (Ok (lit ''00000000'')),
      LSend 3 (Request peer_id_default
        (sign reference_ring (lit ''00000000'') (id_bytes peer_id_default))) (Ok ()),
      LNext 3 (Frame (Ok (Response (sign reference_ring (lit ''00000000'') (id_bytes test_id))))),
      LSend 3 CompleteRequest (Ok ()), LNext 3 (Frame (Ok CompleteResponse)), LSpawn 3 test_id] =
   Some (Done (Ok \<lparr>p_id = test_id, p_conn_type = Client, p_metadata = test_metadata, p_conn = 3\<rparr>))"
  unfolding connect_succeeds_iff [OF reference_ring.ring_crate_axioms]
  by (simp add: test_candidate_def candidate_new_def test_metadata_def)

text \<open>
  C4. When the host side succeeds: \<open>accept\<close> returns a peer exactly if a request named a candidate
  that the manager has discovered or, failing that, knows, the tag was the candidate's identifier
  signed with the candidate's current one-time password, and the client completed the exchange
  after the host answered with its own identifier signed with that password.
\<close>

theorem accept_succeeds_iff:
  assumes "ring_crate R"
  shows "runs (accept R self_id c) ls = Some (Done (Ok p)) \<longleftrightarrow>
   (\<exists>i key m m' cand. ls =
      [LNext c (Frame (Ok (Request i (sign R key (id_bytes (pc_id cand)))))),
       LAtomic m m, LAtomic m' m',
       LGen (pc_auth cand) (Ok key),
       LSend c (Response (sign R key (id_bytes self_id))) (Ok ()),
       LNext c (Frame (Ok CompleteRequest)),
       LSend c CompleteResponse (Ok ()),
       LSpawn c (pm_id (pc_metadata cand))] \<and>
     (case discovered_peers m i of Some d \<Rightarrow> Some d | None \<Rightarrow> known_peers m' i) = Some cand \<and>
     p = \<lparr>p_id = pm_id (pc_metadata cand), p_conn_type = Server,
          p_metadata = pc_metadata cand, p_conn = c\<rparr>)"
  using assms by (rule ring_crate.accept_Ok_iff)

definition test_manager :: "totp_state manager" where
  "test_manager = \<lparr>m_id = peer_id_default,
     m_metadata = test_metadata\<lparr>pm_id := peer_id_default\<rparr>,
     known_peers = [test_id \<mapsto> test_candidate], discovered_peers = Map.empty,
     connected_peers = {}, discovery_channel = [], app_channel = []\<rparr>"

theorem accept_succeeds_iff_witness:
  "runs (accept reference_ring peer_id_default 3)
     [LNext 3 (Frame (Ok (Request test_id
        (sign reference_ring (lit ''00000000'') (id_bytes test_id))))),
      LAtomic test_manager test_manager, LAtomic test_manager test_manager,
      LGen (pc_auth test_candidate) (Ok (lit ''00000000'')),
      LSend 3 (Response (sign reference_ring (lit ''00000000'') (id_bytes peer_id_default))) (Ok ()),
      LNext 3 (Frame (Ok CompleteRequest)), LSend 3 CompleteResponse (Ok ()), LSpawn 3 test_id] =
   Some (Done (Ok \<lparr>p_id = test_id, p_conn_type = Server, p_metadata = test_metadata, p_conn = 3\<rparr>))"
  unfolding accept_succeeds_iff [OF reference_ring.ring_crate_axioms]
  by (rule exI [of _ test_id], rule exI [of _ "lit ''00000000''"], rule exI [of _ test_manager],
      rule exI [of _ test_manager], rule exI [of _ test_candidate])
    (simp add: test_candidate_def candidate_new_def test_metadata_def test_manager_def)

text \<open>
  C14. What a failing handshake tells the other side, for both sides and every script: the last
  effect is a failure message with code 2001, 2002 or 2003 exactly when the error is the timeout,
  an unknown peer or a failed authentication; every other error is returned without a failure
  message, and no failing handshake starts a transport loop. This is less than \<^verbatim>\<open>doc/Protocol.md\<close> and the
  comment on \<open>Connection::Failure\<close> promise, which have either side send a failure on every error: after a
  wrong message, a message that cannot be parsed or a failed send the other side is told nothing.
\<close>

theorem handshake_failure_reported:
  assumes "runs (connect R self_id c cand) ls = Some (Done (Err e)) \<or>
    runs (accept R self_id c) ls = Some (Done (Err e))"
  shows "failure_sent c ls = reported e \<and> \<not> list_ex spawns ls"
  using assms by (rule handshake_Err)

definition stranger_manager :: "totp_state manager" where
  "stranger_manager = test_manager\<lparr>known_peers := Map.empty\<rparr>"

theorem handshake_failure_reported_witness:
  "failure_sent 3 [LNext 3 (Frame (Ok (Request test_id test_tag))),
     LAtomic stranger_manager stranger_manager, LAtomic stranger_manager stranger_manager,
     LSend 3 (Failure 2002) (Ok ())] = Some NOT_FOUND_ERR"
proof -
  have "runs (accept reference_ring peer_id_default 3) [LNext 3 (Frame (Ok (Request test_id test_tag))),
     LAtomic stranger_manager stranger_manager, LAtomic stranger_manager stranger_manager,
     LSend 3 (Failure 2002) (Ok ())] = Some (Done (Err HsNotFound))"
    by (simp add: accept_def next_frame_def get_peer_candidate_def send_failure_def
        stranger_manager_def test_manager_def NOT_FOUND_ERR_def)
  from handshake_failure_reported [OF disjI2, OF this] show ?thesis by simp
qed

text \<open>
  C23. When a handshake panics: the task ends by a panic exactly if the last answer was a failing
  password generation, a panicking send or a frame on which the decoder panics; and a
  handshake ends after at most six effects as a client and eight as a host, whatever is answered.
\<close>

theorem handshake_ends:
  "(runs (connect R self_id c cand) ls = Some q \<longrightarrow>
      length ls \<le> 6 \<and> (ended q \<longrightarrow> (q = Crash \<longleftrightarrow> panic_answer (last ls)))) \<and>
   (runs (accept R self_id c) ls = Some q \<longrightarrow>
      length ls \<le> 8 \<and> (ended q \<longrightarrow> (q = Crash \<longleftrightarrow> panic_answer (last ls))))"
proof (intro conjI impI)
  show "length ls \<le> 6" if "runs (connect R self_id c cand) ls = Some q"
    using handshake_length(1) that by (rule runs_length_bound)
  show "length ls \<le> 8" if "runs (accept R self_id c) ls = Some q"
    using handshake_length(2) that by (rule runs_length_bound)
qed (use handshake_Crash_iff in blast)+

theorem handshake_ends_witness:
  "runs (accept reference_ring peer_id_default 3 :: totp_state handshake) [LNext 3 Closed] = Some (Done (Err HsDisconnect)) \<and>
   \<not> panic_answer (last [LNext 3 Closed :: totp_state label]) \<and>
   runs (connect reference_ring peer_id_default 3 test_candidate) [LGen (pc_auth test_candidate) Panic] = Some Crash \<and>
   panic_answer (last [LGen (pc_auth test_candidate) Panic])"
proof -
  have closed: "runs (accept reference_ring peer_id_default 3 :: totp_state handshake) [LNext 3 Closed] =
      Some (Done (Err HsDisconnect))"
    by (simp add: accept_def next_frame_def)
  have crash: "runs (connect reference_ring peer_id_default 3 test_candidate) [LGen (pc_auth test_candidate) Panic] = Some Crash"
    by (simp add: connect_def generate_code_def)
  show ?thesis
    using closed crash
      handshake_ends [of reference_ring peer_id_default 3 test_candidate "[LNext 3 Closed]" "Done (Err HsDisconnect)"]
      handshake_ends [of reference_ring peer_id_default 3 test_candidate "[LGen (pc_auth test_candidate) Panic]" Crash]
    by simp
qed

end
