(* ===== verification/Manager.thy ===== *)
theory Manager
  imports Handshake
begin

text \<open>
  The methods of \<open>P2pManager\<close> (\<^verbatim>\<open>crate/p2p/src/manager.rs\<close>) as trees of effects, what each does when it
  is not interrupted, and the invariant of the manager's state that every method keeps. An
  abstract view of the manager (who is paired, where a peer was seen, who is connected) is
  refined by the methods.
\<close>

subsection \<open>Called by the application\<close>

definition add_known_peer :: "'t peer_candidate \<Rightarrow> ('t, unit) prog" where
  "add_known_peer p = Atomic (insert_known (pc_id p) p) (\<lambda>_. Done ())"

definition request_presence :: "('t, unit) prog" where
  "request_presence = Atomic (send_discovery PresenceRequest) (\<lambda>_. Done ())"

definition get_metadata :: "'t manager \<Rightarrow> peer_metadata" where
  "get_metadata m = m_metadata m"

definition is_discovered :: "peer_id \<Rightarrow> ('t, bool) prog" where
  "is_discovered i = Atomic (\<lambda>m. m) (\<lambda>m. Done (discovered_peers m i \<noteq> None))"

definition is_connected :: "peer_id \<Rightarrow> ('t, bool) prog" where
  "is_connected i = Atomic (\<lambda>m. m) (\<lambda>m. Done (i \<in> connected_peers m))"

text \<open>
  The loop over the addresses of the candidate. The read guard on the candidate is held until
  the method returns, so the candidate is the one that was found.
\<close>

primrec try_addrs ::
    "ring_api \<Rightarrow> peer_id \<Rightarrow> peer_id \<Rightarrow> 't peer_candidate \<Rightarrow> socket_addr list \<Rightarrow> 't handshake" where
  "try_addrs R self_id i candidate [] = Done (Err HsAddr)"
| "try_addrs R self_id i candidate (addr # addrs) = Tcp addr (\<lambda>r. case r of
       None \<Rightarrow> try_addrs R self_id i candidate addrs
     | Some c \<Rightarrow> pbind (connect R self_id c candidate) (\<lambda>r. case r of
           Ok p \<Rightarrow> Atomic (insert_connected i) (\<lambda>_. Done (Ok p))
         | Err e \<Rightarrow> Done (Err e)
         | Panic \<Rightarrow> Crash))"

text \<open>\<open>order\<close> is the order in which a \<open>HashSet\<close> yields its elements, which its documentation leaves open.\<close>

definition connect_to_peer ::
    "ring_api \<Rightarrow> (socket_addr set \<Rightarrow> socket_addr list) \<Rightarrow> peer_id \<Rightarrow> peer_id \<Rightarrow> 't handshake" where
  "connect_to_peer R order self_id i =
     Atomic (\<lambda>m. m) (\<lambda>m. if i \<in> connected_peers m then Done (Err HsDup) else
     Atomic (\<lambda>m. m) (\<lambda>m. case discovered_peers m i of
       None \<Rightarrow> Done (Err HsNotFound)
     | Some candidate \<Rightarrow> try_addrs R self_id i candidate (order (pc_addrs candidate))))"

subsection \<open>Called by the event loop and by connections\<close>

definition peer_disconnected :: "peer_id \<Rightarrow> ('t, unit) prog" where
  "peer_disconnected i =
     Atomic (remove_connected i) (\<lambda>_.
     Atomic (send_app (PeerDisconnected i)) (\<lambda>_. Done ()))"

definition handle_peer_discovered :: "peer_metadata \<Rightarrow> ('t, unit) prog" where
  "handle_peer_discovered peer = (let i = pm_id peer in
     Atomic (\<lambda>m. m) (\<lambda>m. if i \<in> connected_peers m then Done () else
     Atomic (\<lambda>m. m) (\<lambda>m. if discovered_peers m i \<noteq> None then Done () else
     Atomic (remove_known i) (\<lambda>m. case known_peers m i of
       None \<Rightarrow> Done ()
     | Some known \<Rightarrow>
         let candidate = \<lparr>pc_id = i, pc_metadata = peer, pc_addrs = {pm_addr peer},
                          pc_auth = pc_auth known\<rparr> in
         Atomic (insert_discovered i candidate) (\<lambda>_.
         Atomic (insert_known i candidate) (\<lambda>_.
         Atomic (send_app (PeerDiscovered (pc_metadata candidate))) (\<lambda>_. Done ())))))))"

definition handle_presence_request :: "('t, unit) prog" where
  "handle_presence_request =
     Atomic (\<lambda>m. send_discovery (PresenceResponse (m_metadata m)) m) (\<lambda>_. Done ())"

definition handle_new_connection :: "peer \<Rightarrow> ('t, unit) prog" where
  "handle_new_connection peer =
     Atomic (insert_connected (p_id peer)) (\<lambda>_.
     Atomic (send_app (PeerConnected peer)) (\<lambda>_. Done ()))"

lemmas manager_methods = add_known_peer_def request_presence_def is_discovered_def is_connected_def
  peer_disconnected_def handle_peer_discovered_def handle_presence_request_def
  handle_new_connection_def

subsection \<open>Every method without interruption\<close>

text \<open>The peers a presence response can make known to the application.\<close>

definition newly_seen :: "'t manager \<Rightarrow> peer_id \<Rightarrow> bool" where
  "newly_seen m i = (i \<notin> connected_peers m \<and> discovered_peers m i = None \<and> known_peers m i \<noteq> None)"

definition found_candidate :: "'t manager \<Rightarrow> peer_metadata \<Rightarrow> 't peer_candidate" where
  "found_candidate m peer = \<lparr>pc_id = pm_id peer, pc_metadata = peer, pc_addrs = {pm_addr peer},
     pc_auth = pc_auth (the (known_peers m (pm_id peer)))\<rparr>"

lemma exec_handle_peer_discovered:
  "exec (handle_peer_discovered peer) m = (Done (), if newly_seen m (pm_id peer) then
     m\<lparr>known_peers := (known_peers m)(pm_id peer \<mapsto> found_candidate m peer),
       discovered_peers := (discovered_peers m)(pm_id peer \<mapsto> found_candidate m peer),
       app_channel := app_channel m @ [PeerDiscovered peer]\<rparr> else m)"
  by (auto simp: handle_peer_discovered_def Let_def newly_seen_def found_candidate_def manager_ops
      fun_upd_idem split: option.split)

lemma exec_methods:
  "exec (add_known_peer p) m = (Done (), m\<lparr>known_peers := (known_peers m)(pc_id p \<mapsto> p)\<rparr>)"
  "exec request_presence m = (Done (), m\<lparr>discovery_channel := discovery_channel m @ [PresenceRequest]\<rparr>)"
  "exec (is_discovered i) m = (Done (discovered_peers m i \<noteq> None), m)"
  "exec (is_connected i) m = (Done (i \<in> connected_peers m), m)"
  "exec (peer_disconnected i) m = (Done (), m\<lparr>connected_peers := connected_peers m - {i},
     app_channel := app_channel m @ [PeerDisconnected i]\<rparr>)"
  "exec handle_presence_request m =
     (Done (), m\<lparr>discovery_channel := discovery_channel m @ [PresenceResponse (get_metadata m)]\<rparr>)"
  "exec (handle_new_connection peer) m = (Done (), m\<lparr>connected_peers := insert (p_id peer) (connected_peers m),
     app_channel := app_channel m @ [PeerConnected peer]\<rparr>)"
  by (simp_all add: manager_methods manager_ops get_metadata_def)

subsection \<open>Connecting\<close>

text \<open>What follows a TCP connection: the handshake, and the entry in the connected set on success.\<close>

definition finish_connect :: "ring_api \<Rightarrow> peer_id \<Rightarrow> peer_id \<Rightarrow> 't peer_candidate \<Rightarrow> conn \<Rightarrow> 't label list \<Rightarrow>
    (peer, handshake_error) outcome \<Rightarrow> bool" where
  "finish_connect R self_id i cand c ls r = (case r of
       Ok p \<Rightarrow> ls \<noteq> [] \<and> runs (connect R self_id c cand) (butlast ls) = Some (Done (Ok p)) \<and>
         (\<exists>m. last ls = LAtomic m (insert_connected i m))
     | Err e \<Rightarrow> runs (connect R self_id c cand) ls = Some (Done (Err e))
     | Panic \<Rightarrow> False)"

lemma runs_finish_connect:
  "runs (pbind (connect R self_id c cand) (\<lambda>r. case r of
       Ok p \<Rightarrow> Atomic (insert_connected i) (\<lambda>_. Done (Ok p))
     | Err e \<Rightarrow> Done (Err e)
     | Panic \<Rightarrow> Crash)) ls = Some (Done r) \<longleftrightarrow> finish_connect R self_id i cand c ls r"
proof -
  have run: "runs (case a of Ok p \<Rightarrow> Atomic (insert_connected i) (\<lambda>_. Done (Ok p))
        | Err e \<Rightarrow> Done (Err e) | Panic \<Rightarrow> Crash) ls2 = Some (Done r) \<longleftrightarrow>
      a = r \<and> (case r of Ok p \<Rightarrow> \<exists>m. ls2 = [LAtomic m (insert_connected i m)] | Err e \<Rightarrow> ls2 = [] | Panic \<Rightarrow> False)"
    for a :: "(peer, handshake_error) outcome" and ls2
    by (cases a) (auto simp: runs_effect_iff runs_Done_iff runs_Crash_iff simp del: runs.simps)
  have "(\<exists>ls1 ls2. ls = ls1 @ ls2 \<and> runs (connect R self_id c cand) ls1 = Some (Done r) \<and>
      (case r of Ok p \<Rightarrow> \<exists>m. ls2 = [LAtomic m (insert_connected i m)] | Err e \<Rightarrow> ls2 = [] | Panic \<Rightarrow> False)) \<longleftrightarrow>
    finish_connect R self_id i cand c ls r"
    by (cases r; cases ls rule: rev_cases) (auto simp: finish_connect_def)
  then show ?thesis by (simp add: runs_pbind_iff run)
qed

text \<open>
  Scripts in which every address up to some point refuses the connection and the next one takes
  it; \<open>F\<close> is what holds of the rest.
\<close>

definition reached :: "socket_addr list \<Rightarrow> (conn \<Rightarrow> 't label list \<Rightarrow> bool) \<Rightarrow> 't label list \<Rightarrow> bool" where
  "reached addrs F ls = (\<exists>failed a later c hs. addrs = failed @ a # later \<and>
     ls = map (\<lambda>a. LTcp a None) failed @ LTcp a (Some c) # hs \<and> F c hs)"

lemma reached_Nil: "\<not> reached [] F ls"
  by (simp add: reached_def)

lemma reached_Cons:
  "reached (addr # addrs) F ls \<longleftrightarrow> (\<exists>c hs. ls = LTcp addr (Some c) # hs \<and> F c hs) \<or>
   (\<exists>rest. ls = LTcp addr None # rest \<and> reached addrs F rest)"
  (is "?L \<longleftrightarrow> ?now \<or> ?next")
proof (intro iffI; (elim disjE)?)
  assume ?L
  then obtain failed a later c hs where "addr # addrs = failed @ a # later"
      "ls = map (\<lambda>a. LTcp a None) failed @ LTcp a (Some c) # hs" "F c hs"
    unfolding reached_def by blast
  then show "?now \<or> ?next" by (cases failed) (auto simp: reached_def)
next
  assume ?now
  then obtain c hs where "ls = LTcp addr (Some c) # hs" "F c hs" by blast
  then show ?L unfolding reached_def by (intro exI [of _ "[]"] exI [of _ addr] exI [of _ addrs]) auto
next
  assume ?next
  then obtain failed a later c hs where "addrs = failed @ a # later"
      "ls = LTcp addr None # map (\<lambda>a. LTcp a None) failed @ LTcp a (Some c) # hs" "F c hs"
    unfolding reached_def by blast
  then show ?L unfolding reached_def by (intro exI [of _ "addr # failed"] exI [of _ a] exI [of _ later]) auto
qed

lemma runs_try_addrs:
  "runs (try_addrs R self_id i cand addrs) ls = Some (Done r) \<longleftrightarrow>
     (ls = map (\<lambda>a. LTcp a None) addrs \<and> r = Err HsAddr) \<or>
     reached addrs (\<lambda>c hs. finish_connect R self_id i cand c hs r) ls"
proof (induction addrs arbitrary: ls)
  case Nil
  show ?case by (auto simp: runs_Done_iff reached_Nil)
next
  case (Cons addr addrs)
  have "runs (try_addrs R self_id i cand (addr # addrs)) ls = Some (Done r) \<longleftrightarrow>
      (\<exists>rest. ls = LTcp addr None # rest \<and> runs (try_addrs R self_id i cand addrs) rest = Some (Done r)) \<or>
      (\<exists>c rest. ls = LTcp addr (Some c) # rest \<and> finish_connect R self_id i cand c rest r)"
    by (auto simp: runs_effect_iff runs_finish_connect simp del: runs.simps split: option.split_asm)
  then show ?case
    unfolding Cons.IH reached_Cons list.map by blast
qed

lemma runs_connect_to_peer:
  "runs (connect_to_peer R order self_id i) ls = Some (Done r) \<longleftrightarrow>
     (\<exists>m. ls = [LAtomic m m] \<and> i \<in> connected_peers m \<and> r = Err HsDup) \<or>
     (\<exists>m m'. ls = [LAtomic m m, LAtomic m' m'] \<and> i \<notin> connected_peers m \<and>
        discovered_peers m' i = None \<and> r = Err HsNotFound) \<or>
     (\<exists>m m' cand rest. ls = LAtomic m m # LAtomic m' m' # rest \<and> i \<notin> connected_peers m \<and>
        discovered_peers m' i = Some cand \<and>
        runs (try_addrs R self_id i cand (order (pc_addrs cand))) rest = Some (Done r))"
  unfolding connect_to_peer_def
  by (auto simp: runs_effect_iff runs_Done_iff runs_branches simp del: runs.simps)

subsection \<open>An abstract manager\<close>

text \<open>
  What a manager means to its user: the secret each paired peer shares, the metadata each seen
  peer announced and the secret that was paired when it was seen, who is online, and the events
  that were reported.
\<close>

record 't peer_book =
  paired :: "peer_id \<rightharpoonup> 't pairing_authenticator"
  seen :: "peer_id \<rightharpoonup> peer_metadata \<times> 't pairing_authenticator"
  online :: "peer_id set"
  reported_events :: "p2p_event list"

definition book_of :: "'t manager \<Rightarrow> 't peer_book" where
  "book_of m = \<lparr>
     paired = (\<lambda>i. map_option pc_auth (known_peers m i)),
     seen = (\<lambda>i. map_option (\<lambda>c. (pc_metadata c, pc_auth c)) (discovered_peers m i)),
     online = connected_peers m,
     reported_events = app_channel m\<rparr>"

definition book_pair :: "peer_id \<Rightarrow> 't pairing_authenticator \<Rightarrow> 't peer_book \<Rightarrow> 't peer_book" where
  "book_pair i a b = b\<lparr>paired := (paired b)(i \<mapsto> a)\<rparr>"

definition book_see :: "peer_metadata \<Rightarrow> 't peer_book \<Rightarrow> 't peer_book" where
  "book_see md b = (case paired b (pm_id md) of
       None \<Rightarrow> b
     | Some a \<Rightarrow> if pm_id md \<in> online b \<or> seen b (pm_id md) \<noteq> None then b
         else b\<lparr>seen := (seen b)(pm_id md \<mapsto> (md, a)),
                reported_events := reported_events b @ [PeerDiscovered md]\<rparr>)"

definition book_online :: "peer \<Rightarrow> 't peer_book \<Rightarrow> 't peer_book" where
  "book_online p b = b\<lparr>online := insert (p_id p) (online b),
     reported_events := reported_events b @ [PeerConnected p]\<rparr>"

definition book_offline :: "peer_id \<Rightarrow> 't peer_book \<Rightarrow> 't peer_book" where
  "book_offline i b = b\<lparr>online := online b - {i},
     reported_events := reported_events b @ [PeerDisconnected i]\<rparr>"

definition book_secret :: "peer_id \<Rightarrow> 't peer_book \<Rightarrow> 't pairing_authenticator option" where
  "book_secret i b = (case seen b i of Some (_, a) \<Rightarrow> Some a | None \<Rightarrow> paired b i)"

lemma book_of_see: "book_of (snd (exec (handle_peer_discovered md) m)) = book_see md (book_of m)"
  by (auto simp: exec_handle_peer_discovered book_of_def book_see_def newly_seen_def
      found_candidate_def fun_eq_iff split: option.split)

lemma book_of_methods:
  "book_of (snd (exec (add_known_peer p) m)) = book_pair (pc_id p) (pc_auth p) (book_of m)"
  "book_of (snd (exec (handle_new_connection peer) m)) = book_online peer (book_of m)"
  "book_of (snd (exec (peer_disconnected i) m)) = book_offline i (book_of m)"
  "book_of (snd (exec request_presence m)) = book_of m"
  "book_of (snd (exec handle_presence_request m)) = book_of m"
  by (auto simp: exec_methods book_of_def book_pair_def book_online_def book_offline_def fun_eq_iff)

lemma exec_get_peer_candidate:
  "exec (get_peer_candidate i k) m =
     exec (k (case discovered_peers m i of Some p \<Rightarrow> Some p | None \<Rightarrow> known_peers m i)) m"
  by (simp add: get_peer_candidate_def Let_def)

lemma book_secret_lookup:
  "map_option pc_auth (case discovered_peers m i of Some p \<Rightarrow> Some p | None \<Rightarrow> known_peers m i) =
     book_secret i (book_of m)"
  by (simp add: book_secret_def book_of_def split: option.split)

subsection \<open>The properties\<close>

text \<open>
  C8. The manager's methods implement the peer book: pairing records the secret, a presence
  response is recorded and reported exactly for a peer that is paired, not connected and not yet
  seen, and keeps its secret; connections and disconnections update who is online and are
  reported; asking for and answering presence leave the book as it is; and the candidate a host
  authenticates with carries the secret of the book.
\<close>

theorem manager_refines_book:
  "book_of (snd (exec (add_known_peer p) m)) = book_pair (pc_id p) (pc_auth p) (book_of m) \<and>
   book_of (snd (exec (handle_peer_discovered md) m)) = book_see md (book_of m) \<and>
   book_of (snd (exec (handle_new_connection peer) m)) = book_online peer (book_of m) \<and>
   book_of (snd (exec (peer_disconnected i) m)) = book_offline i (book_of m) \<and>
   book_of (snd (exec request_presence m)) = book_of m \<and>
   book_of (snd (exec handle_presence_request m)) = book_of m \<and>
   exec (get_peer_candidate i (\<lambda>c. Done (map_option pc_auth c))) m =
     (Done (book_secret i (book_of m)), m)"
  by (simp add: book_of_see book_of_methods exec_get_peer_candidate book_secret_lookup)

text \<open>
  C11. Every outcome of connecting to a peer, on every script of answers: a duplicate exactly if the
  peer is connected, not found exactly if it is not connected and not discovered, the address
  error exactly if every address of the candidate refused, tried in order; and otherwise the
  result of the handshake with the first address that answered, no later address being tried,
  with the peer entered into the connected set after a success and only then.
\<close>

theorem connect_to_peer_outcome:
  "runs (connect_to_peer R order self_id i) ls = Some (Done r) \<longleftrightarrow>
     (\<exists>m. ls = [LAtomic m m] \<and> i \<in> connected_peers m \<and> r = Err HsDup) \<or>
     (\<exists>m m'. ls = [LAtomic m m, LAtomic m' m'] \<and> i \<notin> connected_peers m \<and>
        discovered_peers m' i = None \<and> r = Err HsNotFound) \<or>
     (\<exists>m m' cand rest. ls = LAtomic m m # LAtomic m' m' # rest \<and> i \<notin> connected_peers m \<and>
        discovered_peers m' i = Some cand \<and>
        (rest = map (\<lambda>a. LTcp a None) (order (pc_addrs cand)) \<and> r = Err HsAddr \<or>
         (\<exists>failed a later c hs. order (pc_addrs cand) = failed @ a # later \<and>
            rest = map (\<lambda>a. LTcp a None) failed @ LTcp a (Some c) # hs \<and>
            (case r of
               Ok p \<Rightarrow> hs \<noteq> [] \<and> runs (connect R self_id c cand) (butlast hs) = Some (Done (Ok p)) \<and>
                 (\<exists>m. last hs = LAtomic m (insert_connected i m))
             | Err e \<Rightarrow> runs (connect R self_id c cand) hs = Some (Done (Err e))
             | Panic \<Rightarrow> False))))"
  unfolding runs_connect_to_peer runs_try_addrs reached_def finish_connect_def ..

text \<open>
  C28. Only the address and the secret of the first presence response are ever used: after a
  newly seen peer's response was handled, connecting tries exactly the announced address with the
  paired secret, a later response with another address changes nothing, and pairing the peer again
  with another secret does not change the secret that either side of a handshake uses.
\<close>

theorem first_discovery_is_final:
  assumes "newly_seen m (pm_id md)" and "known_peers m (pm_id md) = Some k"
    and "pm_id md' = pm_id md" and "pc_id p = pm_id md"
  defines "m1 \<equiv> snd (exec (handle_peer_discovered md) m)"
  defines "m2 \<equiv> snd (exec (add_known_peer p) (snd (exec (handle_peer_discovered md') m1)))"
  shows "discovered_peers m2 (pm_id md) = Some \<lparr>pc_id = pm_id md, pc_metadata = md,
      pc_addrs = {pm_addr md}, pc_auth = pc_auth k\<rparr> \<and>
    book_secret (pm_id md) (book_of m2) = Some (pc_auth k) \<and>
    (order {pm_addr md} = [pm_addr md] \<longrightarrow>
      fst (exec (connect_to_peer R order self_id (pm_id md)) m2) =
        try_addrs R self_id (pm_id md) (the (discovered_peers m2 (pm_id md))) [pm_addr md])"
  using assms(1-4)
  by (simp add: m1_def m2_def exec_handle_peer_discovered exec_methods newly_seen_def
      found_candidate_def book_secret_def book_of_def connect_to_peer_def)

definition repaired_candidate :: "totp_state peer_candidate" where
  "repaired_candidate = test_candidate\<lparr>pc_auth := \<lparr>totp = \<lparr>ts_digits = 8, ts_skew = 1, ts_step = 15,
     ts_secret = replicate 20 9\<rparr>\<rparr>\<rparr>"

theorem first_discovery_is_final_witness:
  "book_secret test_id (book_of (snd (exec (add_known_peer repaired_candidate)
     (snd (exec (handle_peer_discovered (test_metadata\<lparr>pm_addr := V4 LOCALHOST 6000\<rparr>))
       (snd (exec (handle_peer_discovered test_metadata) test_manager)))))))
   = Some (pc_auth test_candidate) \<and> pc_auth repaired_candidate \<noteq> pc_auth test_candidate"
proof -
  have "pm_id test_metadata = test_id" "pc_id repaired_candidate = test_id"
    "newly_seen test_manager test_id" "known_peers test_manager test_id = Some test_candidate"
    by (simp_all add: repaired_candidate_def test_candidate_def candidate_new_def test_metadata_def
        test_manager_def newly_seen_def)
  then show ?thesis
    using first_discovery_is_final [of test_manager test_metadata test_candidate
        "test_metadata\<lparr>pm_addr := V4 LOCALHOST 6000\<rparr>" repaired_candidate]
    by (simp add: repaired_candidate_def test_candidate_def candidate_new_def eval_nat_numeral)
qed

end
