(* ===== verification/Transport.thy ===== *)
theory Transport
  imports Manager "HOL-Library.Sublist"
begin

text \<open>
  The task of a connection (\<open>handler\<close> of \<^verbatim>\<open>crate/p2p/src/peer/peer.rs\<close>): it moves bytes between the TCP
  connection and the application, in both directions, and tells the manager when it is over. Each
  turn of its loop starts two copies (\<open>tokio::io::copy\<close>) and waits until one of them finishes; the
  other is dropped with whatever it has read and not yet written.
\<close>

subsection \<open>Copies\<close>

datatype direction = TransportToApp | AppToTransport

text \<open>What a reader will still deliver, and what comes then: its end, an error, or nothing more.\<close>

datatype ending = Eof | Broken io_error | Quiet

record reader =
  rd_data :: bytes
  rd_ending :: ending

text \<open>
  A copy in progress: how many bytes it has read and written, and its result once it has one (the
  number of bytes copied, or an I/O error). How far it got when the loop looks at it, and what the
  writer does, is up to the run time: \<open>copy d k r\<close> for some \<open>k\<close>.
\<close>

record copy_state =
  cs_read :: nat
  cs_written :: nat
  cs_result :: "(io_error + nat) option"

type_synonym io_copy_fn = "direction \<Rightarrow> nat \<Rightarrow> reader \<Rightarrow> copy_state"

text \<open>
  What \<open>tokio::io::copy\<close> documents: it writes what it reads, in order, and succeeds at the end of the
  input with everything written, returning the number of bytes.
\<close>

locale io_copy =
  fixes copy :: io_copy_fn
  assumes written_le: "cs_written (copy d k r) \<le> cs_read (copy d k r)"
    and read_le: "cs_read (copy d k r) \<le> length (rd_data r)"
    and finished: "cs_result (copy d k r) = Some (Inr n) \<Longrightarrow>
      n = length (rd_data r) \<and> cs_written (copy d k r) = n \<and> rd_ending r = Eof"

subsection \<open>The loop\<close>

record pump =
  from_net :: reader
  to_app :: bytes
  from_app :: reader
  to_net :: bytes

type_synonym copy_result = "direction \<times> (io_error + nat)"

text \<open>The two \<open>match\<close>es: the end of the input and an error break the loop.\<close>

definition handler_breaks :: "copy_result \<Rightarrow> bool" where
  "handler_breaks r = (case snd r of Inr n \<Rightarrow> n = 0 | Inl e \<Rightarrow> True)"

text \<open>\<open>select!\<close> takes a finished branch; it starts looking at a random one.\<close>

fun select :: "bool \<Rightarrow> copy_state \<Rightarrow> copy_state \<Rightarrow> copy_result option" where
  "select first c1 c2 = (case (cs_result c1, cs_result c2) of
       (Some x, Some y) \<Rightarrow> Some (if first then (TransportToApp, x) else (AppToTransport, y))
     | (Some x, None) \<Rightarrow> Some (TransportToApp, x)
     | (None, Some y) \<Rightarrow> Some (AppToTransport, y)
     | (None, None) \<Rightarrow> None)"

definition handler_turn :: "io_copy_fn \<Rightarrow> nat \<times> nat \<times> bool \<Rightarrow> pump \<Rightarrow> copy_result option \<times> pump" where
  "handler_turn copy t s = (case t of (k1, k2, first) \<Rightarrow>
     let c1 = copy TransportToApp k1 (from_net s); c2 = copy AppToTransport k2 (from_app s)
     in (select first c1 c2, s\<lparr>
       from_net := (from_net s)\<lparr>rd_data := drop (cs_read c1) (rd_data (from_net s))\<rparr>,
       to_app := to_app s @ take (cs_written c1) (rd_data (from_net s)),
       from_app := (from_app s)\<lparr>rd_data := drop (cs_read c2) (rd_data (from_app s))\<rparr>,
       to_net := to_net s @ take (cs_written c2) (rd_data (from_app s))\<rparr>))"

text \<open>Where the loop is after some turns: it has ended, waits in its \<open>select!\<close>, or goes round again.\<close>

datatype handler_status = Ended copy_result | Waiting | Looping

fun handler_loop :: "io_copy_fn \<Rightarrow> (nat \<times> nat \<times> bool) list \<Rightarrow> pump \<Rightarrow> handler_status \<times> pump" where
  "handler_loop copy [] s = (Looping, s)"
| "handler_loop copy (t # ts) s = (case handler_turn copy t s of
       (None, s') \<Rightarrow> (Waiting, s')
     | (Some r, s') \<Rightarrow> if handler_breaks r then (Ended r, s') else handler_loop copy ts s')"

text \<open>The whole task: once the loop has ended, and only then, the manager is told.\<close>

definition handler ::
    "io_copy_fn \<Rightarrow> peer_id \<Rightarrow> (nat \<times> nat \<times> bool) list \<Rightarrow> pump \<Rightarrow> 't manager \<Rightarrow> pump \<times> 't manager" where
  "handler copy i turns s m = (case handler_loop copy turns s of
       (Ended _, s') \<Rightarrow> (s', snd (exec (peer_disconnected i) m))
     | (_, s') \<Rightarrow> (s', m))"

subsection \<open>Order, and what ends the loop\<close>

text \<open>Seen from one direction: the reader, what was delivered, and the copy's part of a turn.\<close>

lemma turn_fields:
  assumes "handler_turn copy (k1, k2, first) s = (r, s')"
  shows "rd_data (from_net s') = drop (cs_read (copy TransportToApp k1 (from_net s))) (rd_data (from_net s))"
    "to_app s' = to_app s @ take (cs_written (copy TransportToApp k1 (from_net s))) (rd_data (from_net s))"
    "rd_data (from_app s') = drop (cs_read (copy AppToTransport k2 (from_app s))) (rd_data (from_app s))"
    "to_net s' = to_net s @ take (cs_written (copy AppToTransport k2 (from_app s))) (rd_data (from_app s))"
    "r = select first (copy TransportToApp k1 (from_net s)) (copy AppToTransport k2 (from_app s))"
  using assms by (auto simp: handler_turn_def Let_def)

lemma subseq_take_drop: "w \<le> n \<Longrightarrow> subseq (take w xs @ drop n xs) xs"
proof -
  assume "w \<le> n"
  then have "xs = take w xs @ take (n - w) (drop w xs) @ drop n xs"
    by (metis append.assoc append_take_drop_id le_add_diff_inverse take_add)
  then show ?thesis
    by (metis list_emb_append2 subseq_append_iff subseq_order.refl)
qed

context io_copy
begin

definition pending :: "pump \<Rightarrow> nat" where
  "pending s = (if rd_data (from_net s) = [] then 0 else 1) + (if rd_data (from_app s) = [] then 0 else 1)"

lemma pending_le: "pending s \<le> 2"
  by (simp add: pending_def)

lemma turn_in_order:
  assumes "handler_turn copy t s = (r, s')"
  shows "subseq (to_app s' @ rd_data (from_net s')) (to_app s @ rd_data (from_net s))"
    and "subseq (to_net s' @ rd_data (from_app s')) (to_net s @ rd_data (from_app s))"
proof -
  obtain k1 k2 first where t: "t = (k1, k2, first)" by (cases t)
  note f = turn_fields [OF assms [unfolded t]]
  show "subseq (to_app s' @ rd_data (from_net s')) (to_app s @ rd_data (from_net s))"
    "subseq (to_net s' @ rd_data (from_app s')) (to_net s @ rd_data (from_app s))"
    unfolding f append_assoc by (simp_all only: subseq_append' subseq_take_drop written_le)
qed

lemma loop_in_order:
  "subseq (to_app (snd (handler_loop copy turns s)) @ rd_data (from_net (snd (handler_loop copy turns s))))
     (to_app s @ rd_data (from_net s)) \<and>
   subseq (to_net (snd (handler_loop copy turns s)) @ rd_data (from_app (snd (handler_loop copy turns s))))
     (to_net s @ rd_data (from_app s))"
proof (induction turns arbitrary: s)
  case (Cons t ts)
  obtain r s' where t: "handler_turn copy t s = (r, s')" by fastforce
  show ?case
    using turn_in_order [OF t] Cons.IH [of s'] subseq_order.trans by (cases r) (auto simp: t)
qed simp

text \<open>A turn that does not end the loop has used up one of the two inputs.\<close>

lemma turn_pending:
  assumes "handler_turn copy t s = (Some r, s')" and "\<not> handler_breaks r"
  shows "pending s' < pending s"
proof -
  obtain k1 k2 first where t: "t = (k1, k2, first)" by (cases t)
  let ?c1 = "copy TransportToApp k1 (from_net s)" and ?c2 = "copy AppToTransport k2 (from_app s)"
  note f = turn_fields [OF assms(1) [unfolded t]]
  have "rd_data (from_net s') = [] \<and> rd_data (from_net s) \<noteq> []"
    if "cs_result ?c1 = Some (snd r)"
    using that assms(2) finished [of TransportToApp k1 "from_net s"] written_le [of TransportToApp k1 "from_net s"]
    by (cases "snd r") (auto simp: f handler_breaks_def)
  moreover have "rd_data (from_app s') = [] \<and> rd_data (from_app s) \<noteq> []"
    if "cs_result ?c2 = Some (snd r)"
    using that assms(2) finished [of AppToTransport k2 "from_app s"] written_le [of AppToTransport k2 "from_app s"]
    by (cases "snd r") (auto simp: f handler_breaks_def)
  moreover have "cs_result ?c1 = Some (snd r) \<or> cs_result ?c2 = Some (snd r)"
    using f(5) by (auto split: option.split_asm if_split_asm)
  ultimately show ?thesis by (auto simp: pending_def f)
qed

lemma loop_bounded: "pending s < length turns \<Longrightarrow> fst (handler_loop copy turns s) \<noteq> Looping"
proof (induction turns arbitrary: s)
  case (Cons t ts)
  obtain r s' where t: "handler_turn copy t s = (r, s')" by fastforce
  show ?case
  proof (cases "\<exists>x. r = Some x \<and> \<not> handler_breaks x")
    case True
    then obtain x where x: "r = Some x" "\<not> handler_breaks x" by blast
    with turn_pending [of t s x s'] t Cons.prems have "pending s' < length ts" by simp
    with Cons.IH x t show ?thesis by simp
  qed (auto simp: t split: option.split)
qed simp

text \<open>Until a side is cut off by an error, the input that ended first has been delivered as a whole.\<close>

lemma turn_complete:
  assumes "handler_turn copy t s = (Some r, s')" and "snd r = Inr n"
  shows "to_app s' = to_app s @ rd_data (from_net s) \<or> to_net s' = to_net s @ rd_data (from_app s)"
proof -
  obtain k1 k2 first where t: "t = (k1, k2, first)" by (cases t)
  note f = turn_fields [OF assms(1) [unfolded t]]
  have "cs_result (copy TransportToApp k1 (from_net s)) = Some (Inr n) \<or>
      cs_result (copy AppToTransport k2 (from_app s)) = Some (Inr n)"
    using f(5) assms(2) by (auto split: option.split_asm if_split_asm)
  then show ?thesis using finished by (auto simp: f)
qed

lemma loop_complete:
  assumes "handler_loop copy turns s = (Ended r, s')" and "snd r = Inr n"
  shows "prefix (to_app s @ rd_data (from_net s)) (to_app s') \<or> prefix (to_net s @ rd_data (from_app s)) (to_net s')"
proof (cases turns)
  case Nil
  with assms show ?thesis by simp
next
  case (Cons t ts)
  obtain x s1 where t: "handler_turn copy t s = (Some x, s1)"
    using assms(1) Cons by (cases "handler_turn copy t s") (auto split: option.split_asm)
  have grows: "prefix (to_app s1) (to_app (snd (handler_loop copy us s1))) \<and>
      prefix (to_net s1) (to_net (snd (handler_loop copy us s1)))" for us s1
  proof (induction us arbitrary: s1)
    case (Cons u us)
    obtain r s2 where u: "handler_turn copy u s1 = (r, s2)" by fastforce
    have "prefix (to_app s1) (to_app s2)" "prefix (to_net s1) (to_net s2)"
      using turn_fields(2,4) [of copy _ _ _ s1 r s2] u by (cases u; auto)+
    with Cons.IH [of s2] show ?case
      by (auto simp: u split: option.split dest: prefix_order.trans)
  qed simp
  have "\<exists>n. snd x = Inr n"
    using assms Cons t by (cases "snd x") (auto simp: handler_breaks_def split: if_split_asm)
  then have "to_app s1 = to_app s @ rd_data (from_net s) \<or> to_net s1 = to_net s @ rd_data (from_app s)"
    using turn_complete [OF t] by blast
  moreover have "s' = (if handler_breaks x then s1 else snd (handler_loop copy ts s1))"
    using assms(1) Cons t by (auto split: if_split_asm)
  ultimately show ?thesis using grows [of s1 ts] by (metis prefix_order.refl)
qed

end

text \<open>
  An instance: a copy that may read up to \<open>b\<close> bytes ahead of what it has written, and finishes one
  step after its last byte is written.
\<close>

definition buffered_copy :: "nat \<Rightarrow> io_copy_fn" where
  "buffered_copy b d k r = \<lparr>cs_read = min k (length (rd_data r)), cs_written = min (k - b) (length (rd_data r)),
     cs_result = (if k \<le> length (rd_data r) + b then None else
       (case rd_ending r of Eof \<Rightarrow> Some (Inr (length (rd_data r))) | Broken e \<Rightarrow> Some (Inl e) | Quiet \<Rightarrow> None))\<rparr>"

interpretation buffered_copy: io_copy "buffered_copy b" for b
  by unfold_locales (auto simp: buffered_copy_def split: if_split_asm ending.split_asm)

subsection \<open>The properties\<close>

text \<open>
  C17. The task of a connection delivers, in each direction, bytes of the input in their order and
  nothing else, whatever the run time does; its loop goes round at most three times, because a side
  that has ended ends it when it is looked at again; if it ends without an I/O error then one of
  the two inputs has been delivered as a whole; and the manager is told that the peer is gone exactly
  when the loop has ended, and once.
\<close>

theorem transport_delivery:
  fixes m :: "'t manager" and i :: peer_id and turns :: "(nat \<times> nat \<times> bool) list"
  assumes "io_copy copy" and "to_app s = []" and "to_net s = []"
  defines "s' \<equiv> fst (handler copy i turns s m)"
  shows "subseq (to_app s') (rd_data (from_net s)) \<and> subseq (to_net s') (rd_data (from_app s)) \<and>
    (3 \<le> length turns \<longrightarrow> fst (handler_loop copy turns s) \<noteq> Looping) \<and>
    (\<forall>d n. fst (handler_loop copy turns s) = Ended (d, Inr n) \<longrightarrow>
       to_app s' = rd_data (from_net s) \<or> to_net s' = rd_data (from_app s)) \<and>
    snd (handler copy i turns s m) =
      (if \<exists>r. fst (handler_loop copy turns s) = Ended r
       then m\<lparr>connected_peers := connected_peers m - {i}, app_channel := app_channel m @ [PeerDisconnected i]\<rparr>
       else m)"
proof -
  let ?L = "handler_loop copy turns s"
  have s': "s' = snd ?L"
    unfolding s'_def handler_def by (cases ?L; cases "fst ?L") auto
  have order: "subseq (to_app s') (rd_data (from_net s))" "subseq (to_net s') (rd_data (from_app s))"
    using io_copy.loop_in_order [OF assms(1), of turns s] assms(2,3)
    by (simp_all add: s') (meson prefixI prefix_imp_subseq subseq_order.trans)+
  have all: "to_app s' = rd_data (from_net s) \<or> to_net s' = rd_data (from_app s)"
    if "fst ?L = Ended (d, Inr n)" for d n
  proof -
    have "?L = (Ended (d, Inr n), s')" using that s' by (cases ?L) simp
    then have "prefix (rd_data (from_net s)) (to_app s') \<or> prefix (rd_data (from_app s)) (to_net s')"
      using io_copy.loop_complete [OF assms(1), of turns s "(d, Inr n)" s'] assms(2,3) by simp
    with order show ?thesis
      by (metis prefix_imp_subseq subseq_order.antisym)
  qed
  have "fst ?L \<noteq> Looping" if "3 \<le> length turns"
    using io_copy.loop_bounded [OF assms(1), of s turns] io_copy.pending_le [OF assms(1), of s] that by simp
  moreover have "snd (handler copy i turns s m) =
      (if \<exists>r. fst ?L = Ended r
       then m\<lparr>connected_peers := connected_peers m - {i}, app_channel := app_channel m @ [PeerDisconnected i]\<rparr>
       else m)"
    unfolding handler_def by (cases ?L; cases "fst ?L") (auto simp: exec_methods)
  ultimately show ?thesis using order all by blast
qed

definition ping_pump :: pump where
  "ping_pump = \<lparr>from_net = \<lparr>rd_data = lit ''PING'', rd_ending = Eof\<rparr>, to_app = [],
     from_app = \<lparr>rd_data = lit ''PONG'', rd_ending = Quiet\<rparr>, to_net = []\<rparr>"

theorem transport_delivery_witness:
  "to_app (fst (handler (buffered_copy 2) test_id [(7, 4, True), (3, 1, True)] ping_pump test_manager)) = lit ''PING'' \<or>
   to_net (fst (handler (buffered_copy 2) test_id [(7, 4, True), (3, 1, True)] ping_pump test_manager)) = lit ''PONG''"
proof -
  have "fst (handler_loop (buffered_copy 2) [(7, 4, True), (3, 1, True)] ping_pump) = Ended (TransportToApp, Inr 0)"
    by (simp add: handler_turn_def Let_def buffered_copy_def ping_pump_def lit_def handler_breaks_def)
  with transport_delivery [OF buffered_copy.io_copy_axioms, of ping_pump 2 test_id "[(7, 4, True), (3, 1, True)]" test_manager]
  show ?thesis by (auto simp: ping_pump_def simp del: handler_loop.simps)
qed

text \<open>
  C35. A connection does not survive the end of one direction: when the remote side has closed its
  sending half after some data, and the application's data is still on its way (the copy to the
  network is not finished), the next look at the ended input ends the task. What the copy had written
  until then is all that the remote side gets; the rest of the application's data is never sent,
  and the peer is reported as disconnected.
\<close>

theorem half_close_cuts_off:
  fixes m :: "'t manager"
  assumes "io_copy copy"
    and "cs_result (copy TransportToApp k1 (from_net s)) = Some (Inr n)" and "0 < n"
    and "cs_result (copy AppToTransport k2 (from_app s)) = None"
    and "cs_result (copy TransportToApp k3 ((from_net s)\<lparr>rd_data := []\<rparr>)) = Some (Inr 0)"
    and "cs_written (copy AppToTransport k4 ((from_app s)\<lparr>rd_data :=
      drop (cs_read (copy AppToTransport k2 (from_app s))) (rd_data (from_app s))\<rparr>)) = 0"
  shows "to_app (fst (handler copy i [(k1, k2, True), (k3, k4, True)] s m)) = to_app s @ rd_data (from_net s) \<and>
    to_net (fst (handler copy i [(k1, k2, True), (k3, k4, True)] s m)) =
      to_net s @ take (cs_written (copy AppToTransport k2 (from_app s))) (rd_data (from_app s)) \<and>
    last (app_channel (snd (handler copy i [(k1, k2, True), (k3, k4, True)] s m))) = PeerDisconnected i"
proof -
  let ?c = "copy TransportToApp k1 (from_net s)"
  have all: "n = length (rd_data (from_net s))" "cs_written ?c = n"
    using io_copy.finished [OF assms(1,2)] by simp_all
  then have "cs_read ?c = n"
    using io_copy.written_le [OF assms(1), of TransportToApp k1 "from_net s"]
      io_copy.read_le [OF assms(1), of TransportToApp k1 "from_net s"] by simp
  with all assms(2-) show ?thesis
    by (simp add: handler_def handler_turn_def Let_def handler_breaks_def exec_methods split: option.split)
qed

theorem half_close_cuts_off_witness:
  "to_net (fst (handler (buffered_copy 2) test_id [(7, 4, True), (3, 1, True)] ping_pump test_manager)) = lit ''PO''"
proof -
  have "to_net (fst (handler (buffered_copy 2) test_id [(7, 4, True), (3, 1, True)] ping_pump test_manager)) =
      to_net ping_pump @ take (cs_written (buffered_copy 2 AppToTransport 4 (from_app ping_pump)))
        (rd_data (from_app ping_pump))"
    by (rule half_close_cuts_off [OF buffered_copy.io_copy_axioms, where n = 4, THEN conjunct2, THEN conjunct1])
      (simp_all add: buffered_copy_def ping_pump_def lit_def)
  then show ?thesis by (simp add: buffered_copy_def ping_pump_def lit_def)
qed

end
