(* ===== verification/Event_Loop.thy ===== *)
theory Event_Loop
  imports Manager
begin

text \<open>
  The event loop (\<^verbatim>\<open>crate/p2p/src/event_loop.rs\<close>): what one turn of its \<open>select!\<close> does for each event,
  and the task it spawns for an accepted connection.
\<close>

text \<open>
  The three sources of events: the discovery task (\<open>None\<close> once it has ended), the internal channel,
  of which only its end can be received since its messages have no values, and the listener.
\<close>

datatype loop_event =
    DiscoveryRecv "(discovery_event \<times> socket_addr) option"
  | InternalClosed
  | Accepted "(conn \<times> socket_addr, io_error) outcome"

text \<open>The loop ends, or runs a method of the manager to its end and spawns tasks.\<close>

datatype 't loop_turn = Break | Continue "('t, unit) prog" "('t, unit) prog list"

definition accept_task :: "ring_api \<Rightarrow> peer_id \<Rightarrow> conn \<Rightarrow> ('t, unit) prog" where
  "accept_task R self_id stream = pbind (accept R self_id stream) (\<lambda>r. case r of
       Ok peer \<Rightarrow> handle_new_connection peer
     | _ \<Rightarrow> Done ())"

fun p2p_event_loop :: "ring_api \<Rightarrow> peer_id \<Rightarrow> loop_event \<Rightarrow> 't loop_turn" where
  "p2p_event_loop R self_id (DiscoveryRecv None) = Break"
| "p2p_event_loop R self_id (DiscoveryRecv (Some (PresenceResponse peer, addr))) =
     (if self_id = pm_id peer then Continue (Done ()) []
      else Continue (handle_peer_discovered peer) [])"
| "p2p_event_loop R self_id (DiscoveryRecv (Some (PresenceRequest, addr))) =
     Continue handle_presence_request []"
| "p2p_event_loop R self_id InternalClosed = Break"
| "p2p_event_loop R self_id (Accepted (Ok (stream, addr))) =
     Continue (Done ()) [accept_task R self_id stream]"
| "p2p_event_loop R self_id (Accepted _) = Continue (Done ()) []"

text \<open>
  A sequence of events, handled one after the other by a loop whose manager nobody else uses: the
  manager afterwards, the tasks that were spawned, and whether the loop still runs.
\<close>

fun loop_run :: "ring_api \<Rightarrow> peer_id \<Rightarrow> loop_event list \<Rightarrow> 't manager \<Rightarrow> 't manager \<times> ('t, unit) prog list \<times> bool"
  where
  "loop_run R self_id [] m = (m, [], True)"
| "loop_run R self_id (e # es) m = (case p2p_event_loop R self_id e of
       Break \<Rightarrow> (m, [], False)
     | Continue p ts \<Rightarrow> (let r = loop_run R self_id es (snd (exec p m))
         in (fst r, ts @ fst (snd r), snd (snd r))))"

text \<open>The metadata of the presence responses of others, up to the end of the loop.\<close>

fun announced :: "peer_id \<Rightarrow> loop_event list \<Rightarrow> peer_metadata list" where
  "announced self_id [] = []"
| "announced self_id (DiscoveryRecv None # es) = []"
| "announced self_id (InternalClosed # es) = []"
| "announced self_id (DiscoveryRecv (Some (PresenceResponse md, _)) # es) =
     (if self_id = pm_id md then announced self_id es else md # announced self_id es)"
| "announced self_id (_ # es) = announced self_id es"

fun asked :: "loop_event list \<Rightarrow> nat" where
  "asked [] = 0"
| "asked (DiscoveryRecv None # es) = 0"
| "asked (InternalClosed # es) = 0"
| "asked (DiscoveryRecv (Some (PresenceRequest, _)) # es) = Suc (asked es)"
| "asked (_ # es) = asked es"

fun accepted :: "loop_event list \<Rightarrow> conn list" where
  "accepted [] = []"
| "accepted (DiscoveryRecv None # es) = []"
| "accepted (InternalClosed # es) = []"
| "accepted (Accepted (Ok (c, _)) # es) = c # accepted es"
| "accepted (_ # es) = accepted es"

definition loop_break :: "loop_event \<Rightarrow> bool" where
  "loop_break e = (e = DiscoveryRecv None \<or> e = InternalClosed)"

lemma loop_event_cases:
  obtains (Stop) "e = DiscoveryRecv None" | (Closed) "e = InternalClosed"
    | (Found) md a where "e = DiscoveryRecv (Some (PresenceResponse md, a))"
    | (Asked) a where "e = DiscoveryRecv (Some (PresenceRequest, a))"
    | (Took) c a where "e = Accepted (Ok (c, a))"
    | (Refused) err where "e = Accepted (Err err)" | (Panicked) "e = Accepted Panic"
  by (metis discovery_event.exhaust loop_event.exhaust not_Some_eq outcome.exhaust surj_pair)

lemma loop_run_book:
  "book_of (fst (loop_run R self_id es m)) = fold book_see (announced self_id es) (book_of m)"
proof (induction es arbitrary: m)
  case (Cons e es)
  then show ?case
    by (cases e rule: loop_event_cases) (auto simp: Let_def book_of_see book_of_methods)
qed simp

lemma loop_run_channel:
  "m_metadata (fst (loop_run R self_id es m)) = m_metadata m \<and>
   discovery_channel (fst (loop_run R self_id es m)) =
     discovery_channel m @ replicate (asked es) (PresenceResponse (m_metadata m))"
proof (induction es arbitrary: m)
  case (Cons e es)
  then show ?case
    by (cases e rule: loop_event_cases)
      (auto simp: Let_def exec_handle_peer_discovered exec_methods get_metadata_def)
qed simp

lemma loop_run_tasks:
  "snd (loop_run R self_id es m) = (map (accept_task R self_id) (accepted es), list_all (Not \<circ> loop_break) es)"
proof (induction es arbitrary: m)
  case (Cons e es)
  then show ?case
    by (cases e rule: loop_event_cases) (auto simp: Let_def loop_break_def)
qed simp

text \<open>
  C15. The event loop on any sequence of events, undisturbed: the peer book records the presence
  responses of other peers, in order, and none of its own; each presence request is answered once
  with the node's metadata; each accepted connection gets its own handshake task; and the loop
  stops exactly at the end of the discovery or of the internal channel, ignoring what follows.
\<close>

theorem event_loop_behaviour:
  "book_of (fst (loop_run R self_id es m)) = fold book_see (announced self_id es) (book_of m) \<and>
   discovery_channel (fst (loop_run R self_id es m)) =
     discovery_channel m @ replicate (asked es) (PresenceResponse (m_metadata m)) \<and>
   snd (loop_run R self_id es m) = (map (accept_task R self_id) (accepted es), list_all (Not \<circ> loop_break) es)"
  by (simp add: loop_run_book loop_run_channel loop_run_tasks)

end
