(* ===== verification/Discovery.thy ===== *)
theory Discovery
  imports Event_Loop "HOL-Library.Sublist"
begin

text \<open>
  Discovery (\<^verbatim>\<open>crate/p2p/src/discovery.rs\<close>): opening the multicast socket, the task that moves discovery
  events between the node and the network, and the construction of a manager on top of them
  (\<open>P2pManager::new\<close> of \<^verbatim>\<open>manager.rs\<close>).
\<close>

subsection \<open>The multicast socket\<close>

definition DISCOVERY_MULTICAST :: ipv4_addr where
  "DISCOVERY_MULTICAST = Ipv4Addr 239 255 42 98"

text \<open>
  The calls of the crate \<^verbatim>\<open>socket2\<close> and the conversion to a tokio socket. The operating system's
  answers are a parameter; the calls that were made are recorded.
\<close>

datatype socket_op =
    NewSocket
  | SetReuseAddress bool
  | BindSocket socket_addr
  | SetMulticastLoop bool
  | JoinMulticast ipv4_addr ipv4_addr
  | SetNonblocking bool
  | FromStd

definition socket_call ::
    "(socket_op \<Rightarrow> (unit, io_error) outcome) \<Rightarrow> socket_op \<Rightarrow> (socket_op list, unit, io_error) call" where
  "socket_call os c done = (os c, done @ [c])"

definition multicast ::
    "(socket_op \<Rightarrow> (unit, io_error) outcome) \<Rightarrow> socket_addr \<Rightarrow> socket_addr \<Rightarrow>
     (socket_op list, socket_addr, io_error) call" where
  "multicast os addr multi_addr =
     (if \<not> is_multicast (ip multi_addr) then slift Panic
      else
        sbind (socket_call os NewSocket) (\<lambda>_.
        sbind (socket_call os (SetReuseAddress True)) (\<lambda>_.
        sbind (socket_call os (BindSocket addr)) (\<lambda>_.
        sbind (socket_call os (SetMulticastLoop True)) (\<lambda>_.
        sbind (case (addr, multi_addr) of
            (V4 a _, V4 m _) \<Rightarrow> socket_call os (JoinMulticast m a)
          | _ \<Rightarrow> sret ()) (\<lambda>_.
        sbind (socket_call os (SetNonblocking True)) (\<lambda>_.
        sbind (socket_call os FromStd) (\<lambda>_.
        sret multi_addr))))))))"

subsection \<open>The discovery task\<close>

text \<open>
  One completed branch of the \<open>select!\<close>: an event of the node to be broadcast, with the result of
  sending it, or an item of the socket's stream, with whether the event loop still receives.
\<close>

datatype discovery_input =
    Broadcast "discovery_event option" "(unit, parse_error) outcome"
  | Network "(discovery_event \<times> socket_addr, parse_error) outcome option" bool

datatype task_status = Running | Stopped | Panicked

record discovery_task =
  just_send_request :: bool
  broadcasts :: "discovery_event list"
  forwarded :: "(discovery_event \<times> socket_addr) list"
  status :: task_status

definition discovery_init :: discovery_task where
  "discovery_init = \<lparr>just_send_request = False, broadcasts = [], forwarded = [], status = Running\<rparr>"

text \<open>A send whose encoder panics takes the task down; a send that fails is only logged.\<close>

definition broadcast ::
    "discovery_event \<Rightarrow> (unit, parse_error) outcome \<Rightarrow> discovery_task \<Rightarrow> discovery_task" where
  "broadcast e r d = (case r of
       Ok _ \<Rightarrow> d\<lparr>broadcasts := broadcasts d @ [e]\<rparr>
     | Err _ \<Rightarrow> d
     | Panic \<Rightarrow> d\<lparr>status := Panicked\<rparr>)"

fun discovery_turn :: "socket_addr \<Rightarrow> discovery_input \<Rightarrow> discovery_task \<Rightarrow> discovery_task" where
  "discovery_turn local_addr (Broadcast None r) d = d\<lparr>status := Stopped\<rparr>"
| "discovery_turn local_addr (Broadcast (Some PresenceRequest) r) d =
     broadcast PresenceRequest r (d\<lparr>just_send_request := True\<rparr>)"
| "discovery_turn local_addr (Broadcast (Some (PresenceResponse md)) r) d =
     broadcast (PresenceResponse md) r d"
| "discovery_turn local_addr (Network None up) d = d"
| "discovery_turn local_addr (Network (Some (Ok (e, addr))) up) d =
     (if just_send_request d \<and> e = PresenceRequest \<and> local_addr = addr
      then d\<lparr>just_send_request := False\<rparr>
      else if \<not> up then d\<lparr>status := Stopped\<rparr>
      else d\<lparr>forwarded := forwarded d @ [(e, addr)]\<rparr>)"
| "discovery_turn local_addr (Network (Some (Err err)) up) d = d"
| "discovery_turn local_addr (Network (Some Panic) up) d = d\<lparr>status := Panicked\<rparr>"

fun discovery_loop :: "socket_addr \<Rightarrow> discovery_input list \<Rightarrow> discovery_task \<Rightarrow> discovery_task" where
  "discovery_loop local_addr [] d = d"
| "discovery_loop local_addr (x # xs) d =
     (if status d = Running then discovery_loop local_addr xs (discovery_turn local_addr x d) else d)"

text \<open>
  The whole task. \<open>local_addr\<close> is what the socket says of its own address, which the task unwraps before
  its loop.
\<close>

definition start :: "(socket_addr, io_error) outcome \<Rightarrow> discovery_input list \<Rightarrow> discovery_task" where
  "start local_addr xs = (case local_addr of
       Ok a \<Rightarrow> discovery_loop a xs discovery_init
     | _ \<Rightarrow> discovery_init\<lparr>status := Panicked\<rparr>)"

lemma start_Ok: "start (Ok a) xs = discovery_loop a xs discovery_init"
  by (simp add: start_def)

subsection \<open>What is forwarded\<close>

text \<open>The events that arrived and the requests that were sent while the task ran.\<close>

fun arrived :: "discovery_input list \<Rightarrow> (discovery_event \<times> socket_addr) list" where
  "arrived [] = []"
| "arrived (Network (Some (Ok f)) _ # xs) = f # arrived xs"
| "arrived (_ # xs) = arrived xs"

fun requested :: "discovery_input list \<Rightarrow> nat" where
  "requested [] = 0"
| "requested (Broadcast (Some PresenceRequest) _ # xs) = Suc (requested xs)"
| "requested (_ # xs) = requested xs"

lemma loop_stopped: "status d \<noteq> Running \<Longrightarrow> discovery_loop a xs d = d"
  by (cases xs) simp_all

lemma loop_append: "discovery_loop a (xs @ ys) d = discovery_loop a ys (discovery_loop a xs d)"
  by (induction xs arbitrary: d) (auto simp: loop_stopped)

lemma broadcast_kept [simp]:
  "forwarded (broadcast e r d) = forwarded d" "just_send_request (broadcast e r d) = just_send_request d"
  by (cases r; simp add: broadcast_def)+

lemma running_step:
  "status (discovery_loop a (x # xs) d) = Running \<longleftrightarrow>
     status d = Running \<and> status (discovery_turn a x d) = Running \<and>
     status (discovery_loop a xs (discovery_turn a x d)) = Running"
  by (cases "status (discovery_turn a x d) = Running") (auto simp: loop_stopped)

text \<open>One turn: what is forwarded, what is swallowed, and the flag that pays for it.\<close>

lemma turn_forwards:
  assumes "status (discovery_turn a x d) = Running" "status d = Running"
  defines "d' \<equiv> discovery_turn a x d"
  shows "forwarded d' = forwarded d @ arrived [x] \<and>
      of_bool (just_send_request d') \<le> requested [x] + of_bool (just_send_request d) \<or>
    arrived [x] = [(PresenceRequest, a)] \<and> forwarded d' = forwarded d \<and>
      just_send_request d \<and> \<not> just_send_request d' \<and> requested [x] = 0"
  using assms by (cases "(a, x, d)" rule: discovery_turn.cases) (auto split: if_split_asm)

lemma arrived_Cons: "arrived (x # xs) = arrived [x] @ arrived xs"
  and requested_Cons: "requested (x # xs) = requested [x] + requested xs"
  by (cases "x # xs" rule: arrived.cases; simp) (cases "x # xs" rule: requested.cases; simp)

lemma loop_forwards:
  assumes "status (discovery_loop a xs d) = Running"
  shows "subseq (forwarded (discovery_loop a xs d)) (forwarded d @ arrived xs) \<and>
    filter (\<lambda>f. f \<noteq> (PresenceRequest, a)) (forwarded (discovery_loop a xs d)) =
      filter (\<lambda>f. f \<noteq> (PresenceRequest, a)) (forwarded d @ arrived xs) \<and>
    length (forwarded d @ arrived xs) + of_bool (just_send_request (discovery_loop a xs d)) \<le>
      length (forwarded (discovery_loop a xs d)) + requested xs + of_bool (just_send_request d)"
  using assms
proof (induction xs arbitrary: d)
  case (Cons x xs)
  then have run: "status d = Running" "status (discovery_turn a x d) = Running"
    and rest: "status (discovery_loop a xs (discovery_turn a x d)) = Running"
    unfolding running_step by blast+
  note ih = Cons.IH [OF rest]
  consider (fwd) "forwarded (discovery_turn a x d) = forwarded d @ arrived [x]"
      "(of_bool (just_send_request (discovery_turn a x d)) :: nat) \<le> requested [x] + of_bool (just_send_request d)"
    | (echo) "arrived [x] = [(PresenceRequest, a)]" "forwarded (discovery_turn a x d) = forwarded d"
      "just_send_request d" "\<not> just_send_request (discovery_turn a x d)" "requested [x] = 0"
    using turn_forwards [OF run(2,1)] by metis
  then show ?case
  proof cases
    case fwd
    with ih run(1) show ?thesis
      by (simp add: arrived_Cons [of x xs] requested_Cons [of x xs])
  next
    case echo
    have "subseq (forwarded d @ arrived xs) (forwarded d @ arrived [x] @ arrived xs)"
      by (simp add: list_emb_append_mono subseq_drop_many)
    with ih run(1) echo show ?thesis
      by (auto simp: arrived_Cons [of x xs] requested_Cons [of x xs] elim: subseq_order.order_trans)
  qed
qed simp

lemma loop_burst:
  assumes "status d = Running"
  shows "discovery_loop a (replicate n (Broadcast (Some PresenceRequest) (Ok ()))) d =
    d\<lparr>just_send_request := (just_send_request d \<or> 0 < n),
      broadcasts := broadcasts d @ replicate n PresenceRequest\<rparr>"
  using assms
proof (induction n arbitrary: d)
  case (Suc n)
  then show ?case by (simp add: broadcast_def)
qed simp

lemma loop_echoes:
  assumes "status d = Running" "\<not> just_send_request d"
  shows "discovery_loop a (replicate n (Network (Some (Ok (PresenceRequest, a))) True)) d =
    d\<lparr>forwarded := forwarded d @ replicate n (PresenceRequest, a)\<rparr>"
  using assms
proof (induction n arbitrary: d)
  case (Suc n)
  then show ?case by simp
qed simp

subsection \<open>Building a manager\<close>

text \<open>
  \<open>bind\<close> stands for \<open>TcpListener::bind\<close>, which gives a listener, and \<open>local_addr\<close> for the listener's method; it is
  called for the log and for the metadata.
\<close>

type_synonym listener = nat

definition manager_new ::
    "(socket_op \<Rightarrow> (unit, io_error) outcome) \<Rightarrow> (socket_addr \<Rightarrow> (listener, io_error) outcome) \<Rightarrow>
     (listener \<Rightarrow> (socket_addr, io_error) outcome) \<Rightarrow> p2p_config \<Rightarrow> ('t manager, init_error) outcome" where
  "manager_new os bind local_addr config =
     (let local = V4 LOCALHOST (port (cfg_multicast config)) in
      bind_o (map_err InitNet (fst (multicast os local (cfg_multicast config) []))) (\<lambda>multi_addr.
      bind_o (map_err InitNet (bind (cfg_p2p_addr config))) (\<lambda>listener.
      bind_o (map_err InitNet (local_addr listener)) (\<lambda>listening.
      Ok \<lparr>m_id = cfg_id config,
          m_metadata = \<lparr>pm_name = cfg_name config, pm_typ = cfg_device config,
            pm_id = cfg_id config, pm_addr = listening\<rparr>,
          known_peers = Map.empty, discovered_peers = Map.empty, connected_peers = {},
          discovery_channel = [], app_channel = []\<rparr>))))"

lemma socket_call_simps [outcome_simps]:
  "os c = Ok u \<Longrightarrow> sbind (socket_call os c) f s = f u (s @ [c])"
  "os c = Err e \<Longrightarrow> sbind (socket_call os c) f s = (Err e, s @ [c])"
  by (simp_all add: sbind_def socket_call_def)

text \<open>The calls of a successful \<open>multicast\<close>, in order.\<close>

fun multicast_ops :: "socket_addr \<Rightarrow> socket_addr \<Rightarrow> socket_op list" where
  "multicast_ops addr multi_addr =
     [NewSocket, SetReuseAddress True, BindSocket addr, SetMulticastLoop True] @
     (case (addr, multi_addr) of (V4 a _, V4 m _) \<Rightarrow> [JoinMulticast m a] | _ \<Rightarrow> []) @
     [SetNonblocking True, FromStd]"

lemma socket_call_Ok_iff:
  "socket_call os c s = (Ok u, t) \<longleftrightarrow> os c = Ok u \<and> t = s @ [c]"
  by (auto simp: socket_call_def)

lemma multicast_Ok_iff:
  "multicast os addr multi_addr s = (Ok r, t) \<longleftrightarrow>
     is_multicast (ip multi_addr) \<and> (\<forall>c \<in> set (multicast_ops addr multi_addr). os c = Ok ()) \<and>
     r = multi_addr \<and> t = s @ multicast_ops addr multi_addr"
  by (cases addr; cases multi_addr)
    (auto simp: multicast_def sbind_Ok_iff socket_call_Ok_iff call_basic)

lemma multicast_not_multicast: "\<not> is_multicast (ip multi_addr) \<Longrightarrow> multicast os addr multi_addr s = (Panic, s)"
  by (simp add: multicast_def call_basic)

lemma fst_Ok_iff: "fst r = Ok a \<longleftrightarrow> (\<exists>t. r = (Ok a, t))"
  by (cases r) auto

lemma manager_new_Ok_iff:
  "manager_new os bind local_addr config = Ok m \<longleftrightarrow>
     is_multicast (ip (cfg_multicast config)) \<and>
     (\<forall>c \<in> set (multicast_ops (V4 LOCALHOST (port (cfg_multicast config))) (cfg_multicast config)).
        os c = Ok ()) \<and>
     (\<exists>listener listening. bind (cfg_p2p_addr config) = Ok listener \<and> local_addr listener = Ok listening \<and>
        m = \<lparr>m_id = cfg_id config,
          m_metadata = \<lparr>pm_name = cfg_name config, pm_typ = cfg_device config,
            pm_id = cfg_id config, pm_addr = listening\<rparr>,
          known_peers = Map.empty, discovered_peers = Map.empty, connected_peers = {},
          discovery_channel = [], app_channel = []\<rparr>)"
  unfolding manager_new_def Let_def bind_o_Ok_iff map_err_Ok_iff fst_Ok_iff multicast_Ok_iff
  by (auto simp del: multicast_ops.simps)

lemma InitNet_not_NotMulticast:
  "bind_o (map_err InitNet r) f = Err NotMulticast \<longleftrightarrow> (\<exists>a. r = Ok a \<and> f a = Err NotMulticast)"
  by (cases r) auto

subsection \<open>The properties\<close>

text \<open>
  C18. What the discovery task hands to the event loop, as long as it runs: the events that arrived,
  in their order, without loss or duplication except that presence requests from the node's own
  address may be swallowed, at most as many as the node sent itself.
\<close>

theorem discovery_forwards:
  assumes "status (start (Ok local_addr) xs) = Running"
  shows "subseq (forwarded (start (Ok local_addr) xs)) (arrived xs) \<and>
    filter (\<lambda>f. f \<noteq> (PresenceRequest, local_addr)) (forwarded (start (Ok local_addr) xs)) =
      filter (\<lambda>f. f \<noteq> (PresenceRequest, local_addr)) (arrived xs) \<and>
    length (arrived xs) \<le> length (forwarded (start (Ok local_addr) xs)) + requested xs"
  using loop_forwards [OF assms [unfolded start_Ok]] by (simp add: start_Ok discovery_init_def)

definition echo_inputs :: "discovery_input list" where
  "echo_inputs = [Broadcast (Some PresenceRequest) (Ok ()), Network (Some (Ok (PresenceRequest, V4 LOCALHOST 5))) True,
     Network (Some (Ok (PresenceRequest, V4 LOCALHOST 7))) True]"

theorem discovery_forwards_witness:
  "forwarded (start (Ok (V4 LOCALHOST 5)) echo_inputs) = [(PresenceRequest, V4 LOCALHOST 7)] \<and>
   subseq (forwarded (start (Ok (V4 LOCALHOST 5)) echo_inputs)) (arrived echo_inputs) \<and>
   length (arrived echo_inputs) = length (forwarded (start (Ok (V4 LOCALHOST 5)) echo_inputs)) + requested echo_inputs"
proof -
  have run: "status (start (Ok (V4 LOCALHOST 5)) echo_inputs) = Running"
    and fwd: "forwarded (start (Ok (V4 LOCALHOST 5)) echo_inputs) = [(PresenceRequest, V4 LOCALHOST 7)]"
    by (simp_all add: echo_inputs_def start_Ok discovery_init_def broadcast_def)
  with discovery_forwards [OF run] show ?thesis by (simp add: echo_inputs_def)
qed

text \<open>
  C38. The flag that recognises the node's own requests remembers one request only: after n requests
  in a row whose echoes all come back, n - 1 of the echoes reach the event loop as requests of
  others, and each of them is answered with a presence response.
\<close>

theorem own_requests_leak:
  fixes a :: socket_addr
  assumes "0 < n"
  defines "d \<equiv> start (Ok a) (replicate n (Broadcast (Some PresenceRequest) (Ok ())) @
    replicate n (Network (Some (Ok (PresenceRequest, a))) True))"
  shows "status d = Running \<and> forwarded d = replicate (n - 1) (PresenceRequest, a) \<and>
    discovery_channel (fst (loop_run R self_id (map (\<lambda>f. DiscoveryRecv (Some f)) (forwarded d)) m)) =
      discovery_channel m @ replicate (n - 1) (PresenceResponse (m_metadata m))"
proof -
  obtain k where n: "n = Suc k" using assms(1) by (cases n) auto
  have burst: "discovery_loop a (replicate n (Broadcast (Some PresenceRequest) (Ok ()))) discovery_init =
      discovery_init\<lparr>just_send_request := True, broadcasts := replicate n PresenceRequest\<rparr>"
    using assms(1) by (simp add: loop_burst discovery_init_def)
  have d: "d = discovery_init\<lparr>broadcasts := replicate n PresenceRequest,
      forwarded := replicate k (PresenceRequest, a)\<rparr>"
    unfolding d_def start_Ok loop_append burst by (simp add: n loop_echoes discovery_init_def)
  have "asked (map (\<lambda>f. DiscoveryRecv (Some f)) (replicate k (PresenceRequest, a))) = k"
    by (induction k) simp_all
  then show ?thesis
    by (simp add: d n discovery_init_def loop_run_channel)
qed

theorem own_requests_leak_witness:
  "forwarded (start (Ok (V4 LOCALHOST 5)) (replicate 2 (Broadcast (Some PresenceRequest) (Ok ())) @
     replicate 2 (Network (Some (Ok (PresenceRequest, V4 LOCALHOST 5))) True))) =
   [(PresenceRequest, V4 LOCALHOST 5)]"
  using own_requests_leak [of 2 "V4 LOCALHOST 5" reference_ring test_id test_manager] by simp

text \<open>
  The items a datagram gives. \<open>UdpFramed\<close> calls the decoder's \<open>decode_eof\<close>, which is \<open>decode\<close> and an error if
  bytes remain that are no complete message, until nothing is left. The list ends with the first
  error or panic. Every message consumes bytes, so the length of the datagram is enough fuel.
\<close>

fun datagram_items :: "platform \<Rightarrow> nat \<Rightarrow> bytes \<Rightarrow> socket_addr \<Rightarrow> discovery_input list" where
  "datagram_items P 0 bs src = []"
| "datagram_items P (Suc n) bs src = (case discovery_decode P bs of
       (Ok (Some e), rest) \<Rightarrow> Network (Some (Ok (e, src))) True # datagram_items P n rest src
     | (Ok None, rest) \<Rightarrow> if rest = [] then [] else [Network (Some (Err (ParseIO (IoError ''bytes remaining on stream'')))) True]
     | (Err e, _) \<Rightarrow> [Network (Some (Err e)) True]
     | (Panic, _) \<Rightarrow> [Network (Some Panic) True])"

definition datagram :: "platform \<Rightarrow> bytes \<Rightarrow> socket_addr \<Rightarrow> discovery_input list" where
  "datagram P bs src = datagram_items P (Suc (length bs)) bs src"

text \<open>What the event loop receives from the task: its events, and its end once it has ended.\<close>

definition loop_feed :: "discovery_task \<Rightarrow> loop_event list" where
  "loop_feed d = map (\<lambda>f. DiscoveryRecv (Some f)) (forwarded d) @
     (if status d = Running then [] else [DiscoveryRecv None])"

text \<open>
  C29. One malformed datagram stops the node: a discovery message whose payload is cut short and
  whose length field does not say so, from anybody on the network, ends the discovery task by a
  panic; whatever arrives later is lost, the event loop ends after the events before it, and no
  later connection is accepted.
\<close>

theorem malformed_datagram_stops_node:
  fixes src :: socket_addr and ys :: "discovery_input list"
  assumes "bytes_crate P" and "discovery_ok P e" and "discovery_payload e = p @ missing" and "missing \<noteq> []"
    and "unat l \<le> 5 + length p"
    and "status (start (Ok a) xs) = Running"
  defines "d \<equiv> start (Ok a) (xs @ datagram P (SIGNATURE @ be16_bytes l @ message_type_code Discovery # p) src @ ys)"
  shows "status d = Panicked \<and> forwarded d = forwarded (start (Ok a) xs) \<and>
    snd (snd (loop_run R self_id (loop_feed d @ es) m)) = False \<and>
    fst (snd (loop_run R self_id (loop_feed d @ es) m)) = []"
proof -
  have "datagram P (SIGNATURE @ be16_bytes l @ message_type_code Discovery # p) src = [Network (Some Panic) True]"
    using bytes_crate.truncated_discovery_panics [OF assms(1-5)]
    by (cases "discovery_decode P (SIGNATURE @ be16_bytes l @ message_type_code Discovery # p)") (simp add: datagram_def)
  then have "d = (start (Ok a) xs)\<lparr>status := Panicked\<rparr>"
    using assms(6) by (simp add: d_def start_Ok loop_append loop_stopped)
  moreover have "accepted (map (\<lambda>f. DiscoveryRecv (Some f)) fs @ DiscoveryRecv None # es) = []" for fs
    by (induction fs) auto
  ultimately show ?thesis
    by (simp add: loop_run_tasks loop_feed_def loop_break_def)
qed

theorem malformed_datagram_stops_node_witness:
  "status (start (Ok (V4 LOCALHOST 5)) (datagram (list_platform True (\<lambda>_. False)) [64, 64, 0, 5, 1] (V4 LOCALHOST 9))) =
     Panicked"
  using malformed_datagram_stops_node [OF list_buffers.bytes_crate_axioms, of True "\<lambda>_. False" PresenceRequest
      "[]" "[0]" 5 "V4 LOCALHOST 5" "[]" "V4 LOCALHOST 9" "[]" reference_ring test_id "[]" test_manager]
  by (simp add: start_Ok discovery_init_def SIGNATURE_def be16_bytes_def)

text \<open>
  C26. Building a manager: it succeeds exactly if the discovery address is a multicast address, every
  socket call and the binding of the listener succeed, and then starts with the configured identity,
  the address it listens on, nobody known, discovered or connected and nothing sent. An address that
  is not multicast is a panic, and never the error that is declared for it.
\<close>

theorem manager_new_outcome:
  "(manager_new os bind local_addr config = Ok m \<longleftrightarrow>
     is_multicast (ip (cfg_multicast config)) \<and>
     (\<forall>c \<in> set (multicast_ops (V4 LOCALHOST (port (cfg_multicast config))) (cfg_multicast config)).
        os c = Ok ()) \<and>
     (\<exists>listener listening. bind (cfg_p2p_addr config) = Ok listener \<and> local_addr listener = Ok listening \<and>
        m = \<lparr>m_id = cfg_id config,
          m_metadata = \<lparr>pm_name = cfg_name config, pm_typ = cfg_device config,
            pm_id = cfg_id config, pm_addr = listening\<rparr>,
          known_peers = Map.empty, discovered_peers = Map.empty, connected_peers = {},
          discovery_channel = [], app_channel = []\<rparr>)) \<and>
   (\<not> is_multicast (ip (cfg_multicast config)) \<longrightarrow> manager_new os bind local_addr config = Panic) \<and>
   manager_new os bind local_addr config \<noteq> Err NotMulticast"
proof (intro conjI impI manager_new_Ok_iff)
  show "manager_new os bind local_addr config = Panic" if "\<not> is_multicast (ip (cfg_multicast config))"
    by (simp add: manager_new_def multicast_not_multicast [OF that])
  show "manager_new os bind local_addr config \<noteq> Err NotMulticast"
    by (simp add: manager_new_def Let_def InitNet_not_NotMulticast)
qed

definition test_config :: p2p_config where
  "test_config = \<lparr>cfg_id = test_id, cfg_device = LinuxDevice, cfg_name = lit ''node'',
     cfg_multicast = V4 DISCOVERY_MULTICAST 50692, cfg_p2p_addr = V4 LOCALHOST 0\<rparr>"

theorem manager_new_outcome_witness:
  "\<exists>m :: totp_state manager. manager_new (\<lambda>_. Ok ()) (\<lambda>_. Ok 7) (\<lambda>_. Ok (V4 LOCALHOST 4000)) test_config = Ok m \<and>
     pm_addr (m_metadata m) = V4 LOCALHOST 4000"
  unfolding manager_new_outcome [THEN conjunct1]
  by (simp add: test_config_def DISCOVERY_MULTICAST_def)

end
