(* ===== verification/Channels.thy ===== *)
theory Channels
  imports Discovery
begin

text \<open>
  The two bounded channels between the discovery task and the event loop (\<^verbatim>\<open>crate/p2p/src/discovery.rs\<close>,
  with their other ends in \<^verbatim>\<open>event_loop.rs\<close> and \<^verbatim>\<open>manager.rs\<close>): a send on a full channel waits, and a task
  that waits does nothing else. The theories \<open>Discovery\<close> and \<open>Event_Loop\<close> take a channel as the list of all
  that was sent; here the queues are bounded and every step that can wait is one of its own. The
  lemmas relate the two views and show where the bounds make both tasks wait for each other.
\<close>

subsection \<open>Two tasks and two queues\<close>

definition CHANNEL_CAPACITY :: nat where
  "CHANNEL_CAPACITY = 1024"

text \<open>
  \<open>ch_held\<close> is the frame the discovery task waits to hand over, \<open>ch_handler\<close> what is left of the method the
  event loop is in (\<open>Done ()\<close> when it is back in its \<open>select!\<close>); \<open>ch_received\<close> and \<open>ch_accepted\<close> record what the
  event loop has received and accepted, \<open>ch_spawned\<close> the tasks it has started.
\<close>

record 't channels =
  ch_manager :: "'t manager"
  ch_app :: "discovery_event list"
  ch_transport :: "(discovery_event \<times> socket_addr) list"
  ch_task :: discovery_task
  ch_held :: "(discovery_event \<times> socket_addr) option"
  ch_handler :: "('t, unit) prog"
  ch_received :: "(discovery_event \<times> socket_addr) list"
  ch_accepted :: "conn list"
  ch_spawned :: "('t, unit) prog list"

definition channels_init :: "'t manager \<Rightarrow> 't channels" where
  "channels_init m = \<lparr>ch_manager = m, ch_app = [], ch_transport = [], ch_task = discovery_init, ch_held = None,
     ch_handler = Done (), ch_received = [], ch_accepted = [], ch_spawned = []\<rparr>"

text \<open>
  An operation on the manager, in a channel of capacity \<open>N\<close>: what it sends goes into the queue, and it
  waits while there is no room.
\<close>

definition perform :: "nat \<Rightarrow> ('t manager \<Rightarrow> 't manager) \<Rightarrow> 't channels \<Rightarrow> 't channels option" where
  "perform N u s = (let m = ch_manager s; new = drop (length (discovery_channel m)) (discovery_channel (u m)) in
     if length (ch_app s) + length new \<le> N then Some (s\<lparr>ch_manager := u m, ch_app := ch_app s @ new\<rparr>) else None)"

text \<open>
  The steps while both tasks run. The discovery task takes an event to broadcast, or a frame from the
  network, which it swallows (its own request) or has to hand over; the event loop receives a frame
  or accepts a connection when it is in its \<open>select!\<close>, and otherwise goes on with the method that the event
  started; \<open>request_presence\<close> is called by the application at any time.
\<close>

inductive channel_step :: "nat \<Rightarrow> socket_addr \<Rightarrow> ring_api \<Rightarrow> peer_id \<Rightarrow> 't channels \<Rightarrow> 't channels \<Rightarrow> bool"
  for N local_addr R self_id where
  task_broadcasts: "ch_held s = None \<Longrightarrow> ch_app s = e # es \<Longrightarrow> r \<noteq> Panic \<Longrightarrow>
     channel_step N local_addr R self_id s (s\<lparr>ch_app := es,
       ch_task := discovery_turn local_addr (Broadcast (Some e) r) (ch_task s)\<rparr>)"
| task_swallows: "ch_held s = None \<Longrightarrow> just_send_request (ch_task s) \<Longrightarrow>
     channel_step N local_addr R self_id s (s\<lparr>
       ch_task := discovery_turn local_addr (Network (Some (Ok (PresenceRequest, local_addr))) True) (ch_task s)\<rparr>)"
| task_takes: "ch_held s = None \<Longrightarrow>
     \<not> (just_send_request (ch_task s) \<and> f = (PresenceRequest, local_addr)) \<Longrightarrow>
     channel_step N local_addr R self_id s (s\<lparr>ch_held := Some f,
       ch_task := discovery_turn local_addr (Network (Some (Ok f)) True) (ch_task s)\<rparr>)"
| task_hands_over: "ch_held s = Some f \<Longrightarrow> length (ch_transport s) < N \<Longrightarrow>
     channel_step N local_addr R self_id s (s\<lparr>ch_held := None, ch_transport := ch_transport s @ [f]\<rparr>)"
| loop_receives: "ch_handler s = Done () \<Longrightarrow> ch_transport s = f # fs \<Longrightarrow>
     p2p_event_loop R self_id (DiscoveryRecv (Some f)) = Continue p ts \<Longrightarrow>
     channel_step N local_addr R self_id s (s\<lparr>ch_transport := fs, ch_received := ch_received s @ [f],
       ch_handler := p, ch_spawned := ch_spawned s @ ts\<rparr>)"
| loop_accepts: "ch_handler s = Done () \<Longrightarrow>
     p2p_event_loop R self_id (Accepted (Ok (c, addr))) = Continue p ts \<Longrightarrow>
     channel_step N local_addr R self_id s (s\<lparr>ch_accepted := ch_accepted s @ [c],
       ch_handler := p, ch_spawned := ch_spawned s @ ts\<rparr>)"
| loop_goes_on: "ch_handler s = Atomic u k \<Longrightarrow> perform N u s = Some s' \<Longrightarrow>
     channel_step N local_addr R self_id s (s'\<lparr>ch_handler := k (ch_manager s)\<rparr>)"
| app_requests: "request_presence = Atomic u k \<Longrightarrow> perform N u s = Some s' \<Longrightarrow>
     channel_step N local_addr R self_id s s'"

inductive channel_reach :: "nat \<Rightarrow> socket_addr \<Rightarrow> ring_api \<Rightarrow> peer_id \<Rightarrow> 't manager \<Rightarrow> 't channels \<Rightarrow> bool"
  for N local_addr R self_id m where
  channel_start: "channel_reach N local_addr R self_id m (channels_init m)"
| channel_next: "channel_reach N local_addr R self_id m s \<Longrightarrow> channel_step N local_addr R self_id s s' \<Longrightarrow>
     channel_reach N local_addr R self_id m s'"

text \<open>Programs whose operations only append to the channel.\<close>

primrec appends :: "('t, 'r) prog \<Rightarrow> bool" where
  "appends (Done r) = True"
| "appends Crash = True"
| "appends (Atomic u k) = (\<forall>m. prefix (discovery_channel m) (discovery_channel (u m)) \<and> appends (k m))"
| "appends (Tcp a k) = (\<forall>x. appends (k x))"
| "appends (Gen a k) = (\<forall>x. appends (k x))"
| "appends (Send c msg k) = (\<forall>x. appends (k x))"
| "appends (Next c k) = (\<forall>x. appends (k x))"
| "appends (Spawn c i p) = appends p"

lemma loop_appends:
  assumes "p2p_event_loop R self_id e = Continue p ts"
  shows "appends p"
  using assms
  by (cases e rule: loop_event_cases)
    (auto simp: handle_peer_discovered_def handle_presence_request_def manager_ops Let_def
      split: if_split_asm option.split)

lemma perform_Some:
  assumes "perform N u s = Some s'" "prefix (discovery_channel (ch_manager s)) (discovery_channel (u (ch_manager s)))"
  obtains new where "s' = s\<lparr>ch_manager := u (ch_manager s), ch_app := ch_app s @ new\<rparr>"
    "discovery_channel (u (ch_manager s)) = discovery_channel (ch_manager s) @ new" "length (ch_app s) + length new \<le> N"
  using assms by (auto simp: perform_def Let_def prefix_def split: if_split_asm)

subsection \<open>Queues and histories\<close>

definition held_frames :: "'t channels \<Rightarrow> (discovery_event \<times> socket_addr) list" where
  "held_frames s = (case ch_held s of None \<Rightarrow> [] | Some f \<Rightarrow> [f])"

text \<open>What the discovery task has taken from the node's channel.\<close>

fun taken :: "discovery_input list \<Rightarrow> discovery_event list" where
  "taken [] = []"
| "taken (Broadcast (Some e) _ # xs) = e # taken xs"
| "taken (_ # xs) = taken xs"

lemma taken_append: "taken (xs @ ys) = taken xs @ taken ys"
  by (induction xs rule: taken.induct) simp_all

definition channels_ok :: "nat \<Rightarrow> socket_addr \<Rightarrow> 't manager \<Rightarrow> 't channels \<Rightarrow> bool" where
  "channels_ok N local_addr m s \<longleftrightarrow> length (ch_app s) \<le> N \<and> length (ch_transport s) \<le> N \<and>
     status (ch_task s) = Running \<and> appends (ch_handler s) \<and>
     forwarded (ch_task s) = ch_received s @ ch_transport s @ held_frames s \<and>
     (\<exists>xs. ch_task s = start (Ok local_addr) xs \<and>
        discovery_channel (ch_manager s) = discovery_channel m @ taken xs @ ch_app s)"

lemma start_snoc:
  "status (start (Ok a) xs) = Running \<Longrightarrow> start (Ok a) (xs @ [x]) = discovery_turn a x (start (Ok a) xs)"
  by (simp add: start_Ok loop_append)

lemma channels_ok_turn:
  assumes "channels_ok N a m s" and "status (discovery_turn a x (ch_task s)) = Running"
    and "ch_task s' = discovery_turn a x (ch_task s)"
    and "forwarded (ch_task s') = ch_received s' @ ch_transport s' @ held_frames s'"
    and "taken [x] @ ch_app s' = ch_app s" "length (ch_transport s') \<le> N" "ch_manager s' = ch_manager s"
      "ch_handler s' = ch_handler s"
  shows "channels_ok N a m s'"
proof -
  obtain xs where xs: "ch_task s = start (Ok a) xs" "status (ch_task s) = Running"
      "discovery_channel (ch_manager s) = discovery_channel m @ taken xs @ ch_app s"
    using assms(1) by (auto simp: channels_ok_def)
  have "length (ch_app s') \<le> N"
    using assms(1,5) by (auto simp: channels_ok_def dest: arg_cong [of _ _ length])
  moreover have "ch_task s' = start (Ok a) (xs @ [x])"
    using xs assms(3) by (simp add: start_snoc)
  moreover have "discovery_channel (ch_manager s') = discovery_channel m @ taken (xs @ [x]) @ ch_app s'"
    using xs(3) assms(5,7) by (simp add: taken_append)
  moreover have "appends (ch_handler s')" using assms(1,8) by (simp add: channels_ok_def)
  ultimately show ?thesis using assms(2-4,6) by (auto simp: channels_ok_def)
qed

lemma channels_ok_perform:
  assumes "channels_ok N a m s" "perform N u s = Some s'"
    and "prefix (discovery_channel (ch_manager s)) (discovery_channel (u (ch_manager s)))" "appends h"
  shows "channels_ok N a m (s'\<lparr>ch_handler := h\<rparr>)"
proof -
  obtain new where new: "s' = s\<lparr>ch_manager := u (ch_manager s), ch_app := ch_app s @ new\<rparr>"
      "discovery_channel (u (ch_manager s)) = discovery_channel (ch_manager s) @ new" "length (ch_app s) + length new \<le> N"
    using assms(2,3) by (rule perform_Some)
  obtain xs where xs: "ch_task s = start (Ok a) xs" "discovery_channel (ch_manager s) = discovery_channel m @ taken xs @ ch_app s"
    using assms(1) by (auto simp: channels_ok_def)
  with new assms(1,4) show ?thesis
    unfolding channels_ok_def by (intro conjI exI [of _ xs]) (simp_all add: held_frames_def)
qed

lemma step_channels_ok:
  assumes "channels_ok N a m s" "channel_step N a R self_id s s'"
  shows "channels_ok N a m s'"
proof -
  have run: "status (ch_task s) = Running"
    and fwd: "forwarded (ch_task s) = ch_received s @ ch_transport s @ held_frames s"
    using assms(1) by (simp_all add: channels_ok_def)
  from assms(2) show ?thesis
  proof (cases rule: channel_step.cases)
    case (task_broadcasts e es r)
    then show ?thesis
      using run fwd assms(1)
      by (intro channels_ok_turn [OF assms(1), of "Broadcast (Some e) r"])
        (cases e; cases r; auto simp: broadcast_def held_frames_def channels_ok_def)+
  next
    case task_swallows
    then show ?thesis
      using run fwd assms(1)
      by (intro channels_ok_turn [OF assms(1), of "Network (Some (Ok (PresenceRequest, a))) True"])
        (auto simp: held_frames_def channels_ok_def)
  next
    case (task_takes f)
    then show ?thesis
      using run fwd assms(1)
      by (intro channels_ok_turn [OF assms(1), of "Network (Some (Ok f)) True"])
        (cases f; auto simp: held_frames_def channels_ok_def)+
  next
    case (loop_receives f fs p ts)
    then show ?thesis using assms(1) loop_appends [OF loop_receives(4)] by (auto simp: channels_ok_def held_frames_def)
  next
    case (loop_accepts c addr p ts)
    then show ?thesis using assms(1) loop_appends [OF loop_accepts(3)] by (auto simp: channels_ok_def held_frames_def)
  next
    case (loop_goes_on u k t)
    have "appends (ch_handler s)" using assms(1) by (simp add: channels_ok_def)
    then show ?thesis
      unfolding loop_goes_on(1) by (intro channels_ok_perform [OF assms(1) loop_goes_on(3)]) (simp_all add: loop_goes_on(2))
  next
    case (app_requests u k)
    have u: "u = send_discovery PresenceRequest" using app_requests(1) by (simp add: request_presence_def)
    have "channels_ok N a m (s'\<lparr>ch_handler := ch_handler s\<rparr>)"
      using assms(1) by (intro channels_ok_perform [OF assms(1) app_requests(2)]) (simp_all add: u send_discovery_def channels_ok_def)
    moreover have "s'\<lparr>ch_handler := ch_handler s\<rparr> = s'"
      using app_requests(2) by (auto simp: perform_def Let_def split: if_split_asm)
    ultimately show ?thesis by simp
  qed (use assms(1) in \<open>auto simp: channels_ok_def held_frames_def\<close>)
qed

lemma reach_channels_ok: "channel_reach N a R self_id m s \<Longrightarrow> channels_ok N a m s"
proof (induction rule: channel_reach.induct)
  case channel_start
  show ?case
    unfolding channels_ok_def channels_init_def held_frames_def
    by (auto simp: start_Ok discovery_init_def intro!: exI [of _ "[]"])
next
  case (channel_next s s')
  then show ?case by (blast intro: step_channels_ok)
qed

subsection \<open>Filling both queues\<close>

text \<open>A quiet moment: the task has sent no request of its own and nothing is in flight but the given queues.\<close>

definition flooded :: "nat \<Rightarrow> nat \<Rightarrow> nat \<Rightarrow> bool \<Rightarrow> 't channels \<Rightarrow> bool" where
  "flooded k i j blocked s \<longleftrightarrow> length (forwarded (ch_task s)) = k \<and> length (ch_app s) = i \<and> length (ch_transport s) = j \<and>
     ch_held s = None \<and> ch_handler s = (if blocked then handle_presence_request else Done ()) \<and> \<not> just_send_request (ch_task s) \<and>
     broadcasts (ch_task s) = [] \<and> list_all (\<lambda>f. fst f = PresenceRequest) (ch_transport s) \<and> ch_accepted s = []"

lemma request_arrives:
  assumes "channel_reach N a R self_id m s" "flooded k i j b s"
  shows "\<exists>s'. channel_reach N a R self_id m s' \<and> ch_held s' = Some (PresenceRequest, src) \<and>
    flooded (Suc k) i j b (s'\<lparr>ch_held := None\<rparr>)"
proof -
  let ?f = "(PresenceRequest, src)"
  let ?s = "s\<lparr>ch_held := Some ?f, ch_task := discovery_turn a (Network (Some (Ok ?f)) True) (ch_task s)\<rparr>"
  have "channel_step N a R self_id s ?s"
    using assms(2) by (intro channel_step.task_takes) (auto simp: flooded_def)
  with assms(1) have "channel_reach N a R self_id m ?s" by (rule channel_next)
  then show ?thesis using assms(2) by (intro exI [of _ ?s]) (auto simp: flooded_def)
qed

lemma request_queued:
  assumes "channel_reach N a R self_id m s" "flooded k i j b s" "j < N"
  shows "\<exists>s'. channel_reach N a R self_id m s' \<and> flooded (Suc k) i (Suc j) b s'"
proof -
  obtain s1 where s1: "channel_reach N a R self_id m s1" "ch_held s1 = Some (PresenceRequest, a)"
      "flooded (Suc k) i j b (s1\<lparr>ch_held := None\<rparr>)"
    using request_arrives [OF assms(1,2), of a] by blast
  let ?s = "s1\<lparr>ch_held := None, ch_transport := ch_transport s1 @ [(PresenceRequest, a)]\<rparr>"
  have "channel_step N a R self_id s1 ?s"
    using s1(2,3) assms(3) by (intro channel_step.task_hands_over) (auto simp: flooded_def)
  with s1(1) have "channel_reach N a R self_id m ?s" by (rule channel_next)
  then show ?thesis using s1(3) by (intro exI [of _ ?s]) (auto simp: flooded_def)
qed

lemma request_answered:
  assumes "channel_reach N a R self_id m s" "flooded k i 1 False s"
  shows "\<exists>s'. channel_reach N a R self_id m s' \<and> flooded k i 0 True s'"
proof -
  obtain addr where t: "ch_transport s = [(PresenceRequest, addr)]"
    using assms(2) by (cases "ch_transport s") (auto simp: flooded_def)
  let ?s = "s\<lparr>ch_transport := [], ch_received := ch_received s @ [(PresenceRequest, addr)],
     ch_handler := handle_presence_request, ch_spawned := ch_spawned s @ []\<rparr>"
  have "channel_step N a R self_id s ?s"
    using assms(2) t by (intro channel_step.loop_receives) (auto simp: flooded_def)
  with assms(1) have "channel_reach N a R self_id m ?s" by (rule channel_next)
  then show ?thesis using assms(2) by (intro exI [of _ ?s]) (auto simp: flooded_def)
qed

lemma answer_sent:
  assumes "channel_reach N a R self_id m s" "flooded k i j True s" "i < N"
  shows "\<exists>s'. channel_reach N a R self_id m s' \<and> flooded k (Suc i) j False s'"
proof -
  let ?e = "PresenceResponse (m_metadata (ch_manager s))"
  let ?u = "\<lambda>m. send_discovery (PresenceResponse (m_metadata m)) m"
  let ?t = "s\<lparr>ch_manager := ?u (ch_manager s), ch_app := ch_app s @ [?e]\<rparr>"
  have h: "ch_handler s = Atomic ?u (\<lambda>_. Done ())" "length (ch_app s) < N"
    using assms(2,3) by (auto simp: flooded_def handle_presence_request_def)
  then have "perform N ?u s = Some ?t"
    by (simp add: perform_def Let_def send_discovery_def)
  from channel_step.loop_goes_on [OF h(1) this] assms(1) have "channel_reach N a R self_id m (?t\<lparr>ch_handler := Done ()\<rparr>)"
    by (blast intro: channel_next)
  then show ?thesis using assms(2) by (intro exI [of _ "?t\<lparr>ch_handler := Done ()\<rparr>"]) (auto simp: flooded_def)
qed

lemma fill_app: "i \<le> N \<Longrightarrow> \<exists>s. channel_reach N a R self_id m s \<and> flooded i i 0 False s"
proof (induction i)
  case 0
  show ?case
    by (intro exI [of _ "channels_init m"] conjI channel_start)
      (simp add: flooded_def channels_init_def discovery_init_def)
next
  case (Suc i)
  then obtain s where "channel_reach N a R self_id m s" "flooded i i 0 False s" by auto
  with request_queued [of N a R self_id m s i i 0 False] Suc.prems obtain s where
    "channel_reach N a R self_id m s" "flooded (Suc i) i 1 False s" by auto
  with request_answered [of N a R self_id m s] answer_sent [of N a R self_id m _ "Suc i" i 0] Suc.prems show ?case
    by (metis Suc_le_lessD)
qed

lemma fill_transport:
  assumes "0 < N"
  shows "j \<le> N \<Longrightarrow> \<exists>s. channel_reach N a R self_id m s \<and> flooded (Suc N + j) N j True s"
proof (induction j)
  case 0
  obtain s where "channel_reach N a R self_id m s" "flooded N N 0 False s" using fill_app [of N N a R self_id m] by auto
  with request_queued [of N a R self_id m s N N 0 False] assms obtain s where
    "channel_reach N a R self_id m s" "flooded (Suc N) N 1 False s" by auto
  with request_answered [of N a R self_id m s] show ?case by simp
next
  case (Suc j)
  then obtain s where "channel_reach N a R self_id m s" "flooded (Suc N + j) N j True s" by auto
  with request_queued [of N a R self_id m s "Suc N + j" N j True] Suc.prems show ?case by simp
qed

lemma stuck_when_full:
  assumes "ch_held s \<noteq> None" "ch_handler s = handle_presence_request" "N \<le> length (ch_app s)" "N \<le> length (ch_transport s)"
  shows "\<not> channel_step N a R self_id s s'"
proof
  have full: "perform N (send_discovery e) s = None" "perform N (\<lambda>m. send_discovery (f m) m) s = None" for e f
    using assms(3) by (simp_all add: perform_def Let_def send_discovery_def)
  assume "channel_step N a R self_id s s'"
  then show False
    using assms full by (cases rule: channel_step.cases) (auto simp: handle_presence_request_def request_presence_def)
qed

subsection \<open>The properties\<close>

text \<open>
  C19. The bounded channels refine the unbounded ones: in every state the two tasks get into, neither
  queue holds more than its capacity, nothing is lost, duplicated or reordered on the way (the
  frames the discovery task has handed over are those the event loop has received, those in the queue and the one in hand; the
  events sent by the node are those the task has taken and those in the queue), and the discovery task is in a
  state of its unbounded model.
\<close>

theorem channels_lossless:
  assumes "channel_reach CHANNEL_CAPACITY local_addr R self_id m s"
  shows "length (ch_app s) \<le> 1024 \<and> length (ch_transport s) \<le> 1024 \<and>
    forwarded (ch_task s) = ch_received s @ ch_transport s @ (case ch_held s of None \<Rightarrow> [] | Some f \<Rightarrow> [f]) \<and>
    (\<exists>xs. ch_task s = start (Ok local_addr) xs \<and> status (ch_task s) = Running \<and>
       discovery_channel (ch_manager s) = discovery_channel m @ taken xs @ ch_app s)"
  using reach_channels_ok [OF assms] by (auto simp: channels_ok_def held_frames_def CHANNEL_CAPACITY_def)

theorem channels_lossless_witness:
  "\<exists>s. channel_reach CHANNEL_CAPACITY (V4 LOCALHOST 5) reference_ring test_id test_manager s \<and> length (ch_app s) = 3 \<and>
     forwarded (ch_task s) = ch_received s"
proof -
  obtain s where s: "channel_reach CHANNEL_CAPACITY (V4 LOCALHOST 5) reference_ring test_id test_manager s" "flooded 3 3 0 False s"
    using fill_app [of 3 CHANNEL_CAPACITY "V4 LOCALHOST 5" reference_ring test_id test_manager] by (auto simp: CHANNEL_CAPACITY_def)
  with channels_lossless [OF s(1)] show ?thesis by (auto simp: flooded_def)
qed

text \<open>
  C30. A flood of presence requests stops a node for good: 2050 requests, taken by the discovery task
  before it broadcasts any of the answers, lead to a state in which the event loop waits to send an answer on a
  full channel that only the discovery task empties, while the discovery task waits to hand over a
  frame on a full channel that only the event loop empties. From there nothing is possible: nothing is
  broadcast or received, no connection is accepted, and a request of the application waits as well.
\<close>

theorem presence_flood_deadlock:
  "\<exists>s. channel_reach CHANNEL_CAPACITY local_addr R self_id m s \<and> length (forwarded (ch_task s)) = 2050 \<and>
     broadcasts (ch_task s) = [] \<and> ch_accepted s = [] \<and>
     (\<forall>s'. \<not> channel_step CHANNEL_CAPACITY local_addr R self_id s s')"
proof -
  let ?N = CHANNEL_CAPACITY
  have N: "0 < ?N" "?N = 1024" by (simp_all add: CHANNEL_CAPACITY_def)
  obtain s where "channel_reach ?N local_addr R self_id m s" "flooded (Suc ?N + ?N) ?N ?N True s"
    using fill_transport [OF N(1), of ?N] by blast
  from request_arrives [OF this] obtain s' f where s': "channel_reach ?N local_addr R self_id m s'" "ch_held s' = Some f"
      "flooded (Suc (Suc ?N + ?N)) ?N ?N True (s'\<lparr>ch_held := None\<rparr>)" by blast
  then have "\<not> channel_step ?N local_addr R self_id s' t" for t
    by (intro stuck_when_full) (auto simp: flooded_def)
  with s'(1,3) N(2) show ?thesis by (intro exI [of _ s']) (simp add: flooded_def)
qed

end
