(* ===== verification/Session.thy ===== *)
theory Session
  imports Handshake
begin

text \<open>
  Both sides of a handshake together, over a byte stream: a client running \<open>connect\<close> and a host
  running \<open>accept\<close>, each with its \<open>Framed\<close> read buffer, the codec between them, and a network that
  delivers the bytes in order and in pieces of any size. The steps are those of executions in
  which nothing times out and nobody closes the connection.
\<close>

subsection \<open>Endpoints and sessions\<close>

text \<open>
  \<open>e_in\<close> is the read buffer of \<open>Framed\<close>, \<open>e_out\<close> what has been written and not yet delivered, \<open>e_tcp\<close> the
  connection that each address gives.
\<close>

record ('t, 'r) endpoint =
  e_prog :: "('t, 'r) prog"
  e_mgr :: "'t manager"
  e_in :: bytes
  e_out :: bytes
  e_tcp :: "socket_addr \<Rightarrow> conn option"

text \<open>
  One effect of an endpoint. One-time passwords are generated at any moment of the time window \<open>w\<close>
  of fifteen seconds. \<open>send\<close> encodes and writes; \<open>next\<close> gives the first message of the buffer once
  the decoder finds one. What \<open>into_inner\<close> of the crate \<^verbatim>\<open>tokio_util\<close>, called before the transport loop is
  spawned, does with bytes that are still in the buffer is left open: it may drop or keep them.
\<close>

inductive endpoint_step ::
    "'t totp_api \<Rightarrow> platform \<Rightarrow> nat \<Rightarrow> ('t, 'r) endpoint \<Rightarrow> ('t, 'r) endpoint \<Rightarrow> bool"
  for T P w where
  ep_atomic: "e_prog e = Atomic u k \<Longrightarrow>
     endpoint_step T P w e (e\<lparr>e_prog := k (e_mgr e), e_mgr := u (e_mgr e)\<rparr>)"
| ep_tcp: "e_prog e = Tcp a k \<Longrightarrow>
     endpoint_step T P w e (e\<lparr>e_prog := k (e_tcp e a)\<rparr>)"
| ep_gen: "e_prog e = Gen a k \<Longrightarrow> now div 15 = w \<Longrightarrow>
     endpoint_step T P w e (e\<lparr>e_prog := k (generate T a now)\<rparr>)"
| ep_send: "e_prog e = Send c msg k \<Longrightarrow> connection_encode P msg [] = (r, bs) \<Longrightarrow>
     endpoint_step T P w e (e\<lparr>e_prog := k r, e_out := e_out e @ bs\<rparr>)"
| ep_next: "e_prog e = Next c k \<Longrightarrow> connection_decode P (e_in e) = (Ok (Some msg), rest) \<Longrightarrow>
     endpoint_step T P w e (e\<lparr>e_prog := k (Frame (Ok msg)), e_in := rest\<rparr>)"
| ep_next_error: "e_prog e = Next c k \<Longrightarrow> connection_decode P (e_in e) = (r, rest) \<Longrightarrow> \<not> is_ok r \<Longrightarrow>
     endpoint_step T P w e (e\<lparr>e_prog := k (Frame (case r of Err x \<Rightarrow> Err x | _ \<Rightarrow> Panic)), e_in := rest\<rparr>)"
| ep_spawn: "e_prog e = Spawn c i p \<Longrightarrow> kept = [] \<or> kept = e_in e \<Longrightarrow>
     endpoint_step T P w e (e\<lparr>e_prog := p, e_in := kept\<rparr>)"

record ('t, 'a, 'b) session =
  client :: "('t, 'a) endpoint"
  host :: "('t, 'b) endpoint"

inductive session_step ::
    "'t totp_api \<Rightarrow> platform \<Rightarrow> nat \<Rightarrow> ('t, 'a, 'b) session \<Rightarrow> ('t, 'a, 'b) session \<Rightarrow> bool"
  for T P w where
  client_runs: "endpoint_step T P w (client s) e \<Longrightarrow> session_step T P w s (s\<lparr>client := e\<rparr>)"
| host_runs: "endpoint_step T P w (host s) e \<Longrightarrow> session_step T P w s (s\<lparr>host := e\<rparr>)"
| to_host: "0 < n \<Longrightarrow> n \<le> length (e_out (client s)) \<Longrightarrow>
     session_step T P w s (s\<lparr>client := (client s)\<lparr>e_out := drop n (e_out (client s))\<rparr>,
       host := (host s)\<lparr>e_in := e_in (host s) @ take n (e_out (client s))\<rparr>\<rparr>)"
| to_client: "0 < n \<Longrightarrow> n \<le> length (e_out (host s)) \<Longrightarrow>
     session_step T P w s (s\<lparr>host := (host s)\<lparr>e_out := drop n (e_out (host s))\<rparr>,
       client := (client s)\<lparr>e_in := e_in (client s) @ take n (e_out (host s))\<rparr>\<rparr>)"

inductive session_run ::
    "'t totp_api \<Rightarrow> platform \<Rightarrow> nat \<Rightarrow> nat \<Rightarrow> ('t, 'a, 'b) session \<Rightarrow> ('t, 'a, 'b) session \<Rightarrow> bool"
  for T P w where
  run_none: "session_run T P w 0 s s"
| run_step: "session_run T P w n s s' \<Longrightarrow> session_step T P w s' s'' \<Longrightarrow> session_run T P w (Suc n) s s''"

definition session_init :: "('t, 'a) prog \<Rightarrow> 't manager \<Rightarrow> (socket_addr \<Rightarrow> conn option) \<Rightarrow>
    ('t, 'b) prog \<Rightarrow> 't manager \<Rightarrow> (socket_addr \<Rightarrow> conn option) \<Rightarrow> ('t, 'a, 'b) session" where
  "session_init p m t q m' t' = \<lparr>client = \<lparr>e_prog = p, e_mgr = m, e_in = [], e_out = [], e_tcp = t\<rparr>,
     host = \<lparr>e_prog = q, e_mgr = m', e_in = [], e_out = [], e_tcp = t'\<rparr>\<rparr>"

text \<open>Where the length of executions is bounded there is one that cannot be continued.\<close>

lemma longest_run:
  assumes "\<And>n s. session_run T P w n s0 s \<Longrightarrow> n \<le> N"
  shows "\<exists>n s. session_run T P w n s0 s \<and> (\<nexists>s'. session_step T P w s s')"
proof -
  have start: "\<exists>s. session_run T P w 0 s0 s" using run_none by blast
  have bound: "\<forall>n. (\<exists>s. session_run T P w n s0 s) \<longrightarrow> n \<le> N" using assms by blast
  obtain n s where s: "session_run T P w n s0 s" and max: "\<And>n' s'. session_run T P w n' s0 s' \<Longrightarrow> n' \<le> n"
    using GreatestI_nat [of "\<lambda>n. \<exists>s. session_run T P w n s0 s", OF start, of N]
      Greatest_le_nat [of "\<lambda>n. \<exists>s. session_run T P w n s0 s", of _ N] bound by blast
  have "\<nexists>s'. session_step T P w s s'"
    using run_step [OF s] max by (meson Suc_n_not_le_n)
  with s show ?thesis by blast
qed

subsection \<open>Following a script\<close>

text \<open>A program that accepts a script has the script's first effect as its next one.\<close>

lemma runs_Cons_inv:
  "runs q (LAtomic m m' # ls) = Some z \<Longrightarrow> \<exists>u k. q = Atomic u k \<and> m' = u m \<and> runs (k m) ls = Some z"
  "runs q (LTcp addr j # ls) = Some z \<Longrightarrow> \<exists>k. q = Tcp addr k \<and> runs (k j) ls = Some z"
  "runs q (LGen a x # ls) = Some z \<Longrightarrow> \<exists>k. q = Gen a k \<and> runs (k x) ls = Some z"
  "runs q (LSend c msg y # ls) = Some z \<Longrightarrow> \<exists>k. q = Send c msg k \<and> runs (k y) ls = Some z"
  "runs q (LNext c v # ls) = Some z \<Longrightarrow> \<exists>k. q = Next c k \<and> runs (k v) ls = Some z"
  "runs q (LSpawn c i # ls) = Some z \<Longrightarrow> \<exists>p. q = Spawn c i p \<and> runs p ls = Some z"
  by (cases q; auto split: if_split_asm)+

text \<open>
  The messages a script sends and receives, the labels an endpoint can follow, and what its operations
  on the manager have to see (each what the one before left) and leave behind.
\<close>

fun sent :: "'t label list \<Rightarrow> connection list" where
  "sent [] = []"
| "sent (LSend c msg r # ls) = msg # sent ls"
| "sent (l # ls) = sent ls"

fun recv :: "'t label list \<Rightarrow> connection list" where
  "recv [] = []"
| "recv (LNext c (Frame (Ok msg)) # ls) = msg # recv ls"
| "recv (l # ls) = recv ls"

fun label_ok :: "'t totp_api \<Rightarrow> platform \<Rightarrow> nat \<Rightarrow> (socket_addr \<Rightarrow> conn option) \<Rightarrow> 't label \<Rightarrow> bool" where
  "label_ok T P w t (LAtomic m1 m2) = True"
| "label_ok T P w t (LTcp a x) = (x = t a)"
| "label_ok T P w t (LGen a x) = (\<forall>now. now div 15 = w \<longrightarrow> generate T a now = x)"
| "label_ok T P w t (LSend c msg x) = (connection_ok P msg \<and> x = Ok ())"
| "label_ok T P w t (LNext c (Frame (Ok msg))) = connection_ok P msg"
| "label_ok T P w t (LSpawn c i) = True"
| "label_ok T P w t _ = False"

fun mgr_after :: "'t manager \<Rightarrow> 't label list \<Rightarrow> 't manager" where
  "mgr_after m [] = m"
| "mgr_after m (LAtomic m1 m2 # ls) = mgr_after m2 ls"
| "mgr_after m (l # ls) = mgr_after m ls"

fun managed :: "'t manager \<Rightarrow> 't label list \<Rightarrow> bool" where
  "managed m [] = True"
| "managed m (LAtomic m1 m2 # ls) = (m1 = m \<and> managed m2 ls)"
| "managed m (l # ls) = managed m ls"

definition wire :: "connection \<Rightarrow> bytes" where
  "wire msg = frame_wire Connect (connection_payload msg)"

definition waits :: "'t label list \<Rightarrow> bool" where
  "waits ls = (\<exists>c msg rest. ls = LNext c (Frame (Ok msg)) # rest)"

lemma sent_append: "sent (xs @ ys) = sent xs @ sent ys"
  by (induction xs rule: sent.induct) simp_all

lemma recv_append: "recv (xs @ ys) = recv xs @ recv ys"
  by (induction xs rule: recv.induct) simp_all

lemma mgr_after_append: "mgr_after m (xs @ ys) = mgr_after (mgr_after m xs) ys"
  by (induction m xs rule: mgr_after.induct) simp_all

lemma managed_append: "managed m (xs @ ys) \<longleftrightarrow> managed m xs \<and> managed (mgr_after m xs) ys"
  by (induction m xs rule: managed.induct) auto

lemma label_ok_cases:
  assumes "label_ok T P w t l"
  obtains (Atomic) m1 m2 where "l = LAtomic m1 m2" | (Tcp) a where "l = LTcp a (t a)"
    | (Gen) a x where "l = LGen a x" "\<And>now. now div 15 = w \<Longrightarrow> generate T a now = x"
    | (Send) c msg where "l = LSend c msg (Ok ())" "connection_ok P msg"
    | (Next) c msg where "l = LNext c (Frame (Ok msg))" "connection_ok P msg"
    | (Spawn) c i where "l = LSpawn c i"
  using assms by (cases "(T, P, w, t, l)" rule: label_ok.cases) auto

context bytes_crate
begin

text \<open>The decoder on a buffer that holds the first bytes of a stream of messages.\<close>

lemma decode_stream:
  assumes "buf @ later = concat (map wire q)" "list_all (connection_ok P) q"
    and "connection_decode P buf = (r, rest)" "r \<noteq> Ok None"
  shows "\<exists>msg q'. q = msg # q' \<and> r = Ok (Some msg) \<and> buf = wire msg @ rest \<and> rest @ later = concat (map wire q')"
proof (cases q)
  case Nil
  with assms show ?thesis by (auto simp: decode_empty)
next
  case (Cons msg q')
  from Cons assms(1) have eq: "buf @ later = wire msg @ concat (map wire q')" by simp
  then consider (short) miss where "wire msg = buf @ miss" "miss \<noteq> []" | (long) more where "buf = wire msg @ more"
    by (auto simp: append_eq_append_conv2) (metis append_Nil2)
  then show ?thesis
  proof cases
    case short
    then have "connection_decode P buf = (Ok None, buf)"
      using Cons assms(2) by (intro connection_decode_prefix [of msg]) (auto simp: wire_def)
    with assms(3,4) show ?thesis by simp
  next
    case (long rest')
    have "connection_decode P buf = (Ok (Some msg), rest')"
      unfolding long wire_def using Cons assms(2) by (intro connection_decode_wire) simp
    with assms(3) Cons eq long show ?thesis by auto
  qed
qed

text \<open>One step of an endpoint that follows a script, and when it can take one.\<close>

lemma endpoint_advance:
  assumes "endpoint_step T P w e e'" "runs (e_prog e) ls = Some (Done r)"
    and "list_all (label_ok T P w (e_tcp e)) ls" "managed (e_mgr e) ls" "list_all (connection_ok P) q"
    and "e_in e @ later = concat (map wire q)" "recv ls = q @ more_msgs"
    and "\<And>l rest. ls = l # rest \<Longrightarrow> spawns l \<Longrightarrow> e_in e = []"
  shows "\<exists>l rest q'. ls = l # rest \<and> runs (e_prog e') rest = Some (Done r) \<and>
    e_mgr e' = mgr_after (e_mgr e) [l] \<and> e_tcp e' = e_tcp e \<and> e_out e' = e_out e @ concat (map wire (sent [l])) \<and> q = recv [l] @ q' \<and>
    e_in e' @ later = concat (map wire q')"
proof (cases ls)
  case Nil
  with assms(1,2) show ?thesis by (cases rule: endpoint_step.cases) auto
next
  case (Cons l rest)
  with assms(3) have "label_ok T P w (e_tcp e) l" by simp
  then show ?thesis
  proof (cases rule: label_ok_cases)
    case (Atomic m1 m2)
    with Cons assms(2,4) obtain u k where "e_prog e = Atomic u k" "u (e_mgr e) = m2"
        "runs (k (e_mgr e)) rest = Some (Done r)"
      using runs_Cons_inv(1) by (metis managed.simps(2))
    with assms(1,6) Cons Atomic show ?thesis by (cases rule: endpoint_step.cases) auto
  next
    case (Tcp a)
    with Cons assms(2) obtain k where "e_prog e = Tcp a k" "runs (k (e_tcp e a)) rest = Some (Done r)"
      using runs_Cons_inv(2) by metis
    with assms(1,6) Cons Tcp show ?thesis by (cases rule: endpoint_step.cases) auto
  next
    case (Gen a x)
    with Cons assms(2) obtain k where "e_prog e = Gen a k" "runs (k x) rest = Some (Done r)"
      using runs_Cons_inv(3) by metis
    with assms(1,6) Cons Gen show ?thesis by (cases rule: endpoint_step.cases) auto
  next
    case (Send c msg)
    with Cons assms(2) obtain k where "e_prog e = Send c msg k" "runs (k (Ok ())) rest = Some (Done r)"
      using runs_Cons_inv(4) by metis
    with assms(1,6) Cons Send connection_encode_wire [of msg "[]"] show ?thesis
      by (cases rule: endpoint_step.cases) (auto simp: wire_def)
  next
    case (Next c msg)
    with Cons assms(2) obtain k where k: "e_prog e = Next c k" "runs (k (Frame (Ok msg))) rest = Some (Done r)"
      using runs_Cons_inv(5) by metis
    from assms(1) k obtain x buf where x: "connection_decode P (e_in e) = (x, buf)" "x \<noteq> Ok None"
      and e': "\<And>m. x = Ok (Some m) \<Longrightarrow> e' = e\<lparr>e_prog := k (Frame (Ok m)), e_in := buf\<rparr>"
      by (cases rule: endpoint_step.cases) (auto simp: is_ok_def split: outcome.split_asm)
    obtain m q' where "q = m # q'" "x = Ok (Some m)" "buf @ later = concat (map wire q')"
      using decode_stream [OF assms(6,5) x] by blast
    with assms(7) Cons Next e' k show ?thesis by auto
  next
    case (Spawn c i)
    with Cons assms(2) obtain p where p: "e_prog e = Spawn c i p" "runs p rest = Some (Done r)"
      using runs_Cons_inv(6) by metis
    have "e_in e = []" using assms(8) Cons Spawn by (simp add: spawns_def)
    with assms(1,6) p Cons Spawn show ?thesis by (cases rule: endpoint_step.cases) auto
  qed
qed

lemma endpoint_progress:
  assumes "runs (e_prog e) (l # rest) = Some z" "label_ok T P w (e_tcp e) l"
    and "\<And>msg ls. recv [l] = [msg] \<Longrightarrow> \<exists>x. e_in e = wire msg @ x"
  shows "\<exists>e'. endpoint_step T P w e e'"
  using assms(2)
proof (cases rule: label_ok_cases)
  case (Atomic m1 m2)
  with assms(1) runs_Cons_inv(1) show ?thesis by (metis ep_atomic)
next
  case (Tcp a)
  with assms(1) runs_Cons_inv(2) show ?thesis by (metis ep_tcp)
next
  case (Gen a x)
  with assms(1) obtain k where "e_prog e = Gen a k" using runs_Cons_inv(3) by metis
  then show ?thesis using ep_gen [of e a k "w * 15" w] by auto
next
  case (Send c msg)
  with assms(1) obtain k where "e_prog e = Send c msg k" using runs_Cons_inv(4) by metis
  then show ?thesis using ep_send by (metis surj_pair)
next
  case (Next c msg)
  with assms(1) obtain k where k: "e_prog e = Next c k" using runs_Cons_inv(5) by metis
  obtain x where x: "e_in e = wire msg @ x" using assms(3) [of msg] Next by auto
  show ?thesis
    by (intro exI, rule ep_next [OF k]) (simp add: x wire_def connection_decode_wire [OF Next(2)])
next
  case (Spawn c i)
  with assms(1) runs_Cons_inv(6) show ?thesis by (metis ep_spawn)
qed

end

subsection \<open>Two scripts that fit together\<close>

text \<open>
  Two programs and a script for each: what one sends the other receives, at no point do both wait
  for a message that has not been sent, and no message is due once a side has spawned its transport
  loop.
\<close>

locale dialogue = bytes_crate P for P :: platform +
  fixes T :: "'t totp_api" and w :: nat
    and pc :: "('t, 'a) prog" and ph :: "('t, 'b) prog" and mc mh :: "'t manager"
    and tc th :: "socket_addr \<Rightarrow> conn option" and C H :: "'t label list"
    and rc :: 'a and rh :: 'b
  assumes C_runs: "runs pc C = Some (Done rc)" and H_runs: "runs ph H = Some (Done rh)"
    and C_ok: "list_all (label_ok T P w tc) C" and H_ok: "list_all (label_ok T P w th) H"
    and C_managed: "managed mc C" and H_managed: "managed mh H"
    and C_sent: "sent C = recv H" and H_sent: "sent H = recv C"
    and no_deadlock: "C = c1 @ c2 \<Longrightarrow> H = h1 @ h2 \<Longrightarrow> waits c2 \<Longrightarrow> waits h2 \<Longrightarrow>
      length (recv h1) < length (sent c1) \<or> length (recv c1) < length (sent h1)"
    and C_tidy: "C = c1 @ l # c2 \<Longrightarrow> spawns l \<Longrightarrow> recv c2 = []"
    and H_tidy: "H = h1 @ l # h2 \<Longrightarrow> spawns l \<Longrightarrow> recv h2 = []"
begin

text \<open>
  Where a session is: both scripts split into what was done and what is left, and between the sides
  the encodings of the messages that were sent and not yet received.
\<close>

definition stage :: "'t label list \<Rightarrow> 't label list \<Rightarrow> 't label list \<Rightarrow> 't label list \<Rightarrow>
    connection list \<Rightarrow> connection list \<Rightarrow> ('t, 'a, 'b) session \<Rightarrow> bool" where
  "stage c1 c2 h1 h2 up down s = (C = c1 @ c2 \<and> H = h1 @ h2 \<and>
     runs (e_prog (client s)) c2 = Some (Done rc) \<and> runs (e_prog (host s)) h2 = Some (Done rh) \<and>
     e_mgr (client s) = mgr_after mc c1 \<and> e_mgr (host s) = mgr_after mh h1 \<and>
     e_tcp (client s) = tc \<and> e_tcp (host s) = th \<and>
     sent c1 = recv h1 @ up \<and> sent h1 = recv c1 @ down \<and>
     e_in (host s) @ e_out (client s) = concat (map wire up) \<and>
     e_in (client s) @ e_out (host s) = concat (map wire down))"

definition effort :: "'t label list \<Rightarrow> 't label list \<Rightarrow> ('t, 'a, 'b) session \<Rightarrow> nat" where
  "effort c2 h2 s = 100 * (length c2 + length h2) + length (e_out (client s)) + length (e_out (host s))"

lemma sent_ok: "list_all (label_ok T P w t) ls \<Longrightarrow> list_all (connection_ok P) (sent ls)"
  by (induction ls rule: sent.induct) auto

lemma wire_small: "label_ok T P w t l \<Longrightarrow> length (concat (map wire (sent [l]))) < 100"
proof (cases l)
  case (LSend c msg r)
  then show "label_ok T P w t l \<Longrightarrow> length (concat (map wire (sent [l]))) < 100"
    using connection_payload_small [of P msg] by (simp add: wire_def)
qed auto

lemma stage_queues:
  assumes "stage c1 c2 h1 h2 up down s"
  shows "recv h2 = up @ sent c2" "recv c2 = down @ sent h2"
    "list_all (connection_ok P) up" "list_all (connection_ok P) down"
    "list_all (label_ok T P w tc) c2" "list_all (label_ok T P w th) h2"
    "managed (mgr_after mc c1) c2"
proof -
  have *: "C = c1 @ c2" "H = h1 @ h2" "sent c1 = recv h1 @ up" "sent h1 = recv c1 @ down"
    using assms by (simp_all add: stage_def)
  show "recv h2 = up @ sent c2" "recv c2 = down @ sent h2"
    using C_sent H_sent * by (simp_all add: sent_append recv_append)
  show "list_all (connection_ok P) up" "list_all (connection_ok P) down"
    using sent_ok [OF C_ok] sent_ok [OF H_ok] * by (simp_all add: sent_append)
  show "list_all (label_ok T P w tc) c2" "list_all (label_ok T P w th) h2"
    using C_ok H_ok * by simp_all
  show "managed (mgr_after mc c1) c2" using C_managed * by (simp add: managed_append)
qed

lemma sent_single: "sent (xs @ [l]) = sent xs @ sent [l]" and recv_single: "recv (xs @ [l]) = recv xs @ recv [l]"
  by (rule sent_append recv_append)+

lemma stage_client:
  assumes "stage c1 c2 h1 h2 up down s" "endpoint_step T P w (client s) e"
  shows "\<exists>c1' c2' up' down'. stage c1' c2' h1 h2 up' down' (s\<lparr>client := e\<rparr>) \<and>
    effort c2' h2 (s\<lparr>client := e\<rparr>) < effort c2 h2 s"
proof -
  note q = stage_queues [OF assms(1)]
  have s: "C = c1 @ c2" "runs (e_prog (client s)) c2 = Some (Done rc)" "e_mgr (client s) = mgr_after mc c1"
      "e_tcp (client s) = tc" "e_in (client s) @ e_out (host s) = concat (map wire down)"
    using assms(1) by (simp_all add: stage_def)
  have tidy: "e_in (client s) = []" if "c2 = l # rest" "spawns l" for l rest
  proof -
    have "recv c2 = []"
      using C_tidy [of c1 l rest] s(1) that by (cases l) (auto simp: spawns_def)
    then show ?thesis using q(2) s(5) by simp
  qed
  have "\<exists>l rest q'. c2 = l # rest \<and> runs (e_prog e) rest = Some (Done rc) \<and>
      e_mgr e = mgr_after (e_mgr (client s)) [l] \<and> e_tcp e = e_tcp (client s) \<and> e_out e = e_out (client s) @ concat (map wire (sent [l])) \<and> down = recv [l] @ q' \<and>
      e_in e @ e_out (host s) = concat (map wire q')"
    by (rule endpoint_advance [OF assms(2) s(2) q(5) [folded s(4)] q(7) [folded s(3)] q(4) s(5) q(2)]) (rule tidy)
  then obtain l rest down' where step: "c2 = l # rest" "runs (e_prog e) rest = Some (Done rc)"
      "e_mgr e = mgr_after (e_mgr (client s)) [l]" "e_tcp e = e_tcp (client s)" "e_out e = e_out (client s) @ concat (map wire (sent [l]))"
      "down = recv [l] @ down'" "e_in e @ e_out (host s) = concat (map wire down')"
    by (elim exE conjE)
  have "e_in (host s) @ e_out e = concat (map wire (up @ sent [l]))"
    using assms(1) unfolding stage_def step(5) append_assoc [symmetric] by simp
  then have "stage (c1 @ [l]) rest h1 h2 (up @ sent [l]) down' (s\<lparr>client := e\<rparr>)"
    using assms(1) step unfolding stage_def by (simp add: sent_single recv_single mgr_after_append del: runs.simps)
  moreover have "effort rest h2 (s\<lparr>client := e\<rparr>) < effort c2 h2 s"
    using wire_small [of tc l] q(5) step(1) by (simp add: effort_def step(5))
  ultimately show ?thesis by blast
qed

lemma stage_to_host:
  assumes "stage c1 c2 h1 h2 up down s" "0 < n" "n \<le> length (e_out (client s))"
  defines "s' \<equiv> s\<lparr>client := (client s)\<lparr>e_out := drop n (e_out (client s))\<rparr>,
    host := (host s)\<lparr>e_in := e_in (host s) @ take n (e_out (client s))\<rparr>\<rparr>"
  shows "stage c1 c2 h1 h2 up down s' \<and> effort c2 h2 s' < effort c2 h2 s"
  using assms(1-3) unfolding stage_def effort_def s'_def by simp

text \<open>A side that has something left to do can do it, unless it waits for a message not yet there.\<close>

lemma stage_progress:
  assumes "stage c1 c2 h1 h2 up down s" "c2 \<noteq> []" "e_out (host s) = []"
    and "waits c2 \<Longrightarrow> down \<noteq> []"
  shows "\<exists>e. endpoint_step T P w (client s) e"
proof -
  obtain l rest where c2: "c2 = l # rest" using assms(2) by (cases c2) auto
  note q = stage_queues [OF assms(1)]
  have s: "runs (e_prog (client s)) (l # rest) = Some (Done rc)" "e_tcp (client s) = tc"
      "e_in (client s) = concat (map wire down)"
    using assms(1,3) c2 by (simp_all add: stage_def)
  have "\<exists>x. e_in (client s) = wire msg @ x" if "recv [l] = [msg]" for msg
  proof -
    have "waits c2" using that c2 by (cases "[l]" rule: recv.cases) (auto simp: waits_def)
    then obtain m down' where "down = m # down'" using assms(4) by (cases down) auto
    moreover have "recv c2 = msg # recv rest"
      using that c2 recv_append [of "[l]" rest] by simp
    ultimately show ?thesis using q(2) s(3) by simp
  qed
  moreover have "label_ok T P w (e_tcp (client s)) l" using q(5) c2 s(2) by simp
  ultimately show ?thesis using endpoint_progress [OF s(1)] by blast
qed

end

sublocale dialogue \<subseteq> flip: dialogue P T w ph pc mh mc th tc H C rh rc
  using C_runs H_runs C_ok H_ok C_managed H_managed C_sent H_sent no_deadlock C_tidy H_tidy
  by unfold_locales metis+

context dialogue
begin

definition swap :: "('t, 'x, 'y) session \<Rightarrow> ('t, 'y, 'x) session" where
  "swap s = \<lparr>client = host s, host = client s\<rparr>"

lemma stage_swap: "flip.stage h1 h2 c1 c2 down up (swap s) \<longleftrightarrow> stage c1 c2 h1 h2 up down s"
  by (auto simp: stage_def flip.stage_def swap_def)

lemma effort_swap: "flip.effort h2 c2 (swap s) = effort c2 h2 s"
  by (simp add: effort_def flip.effort_def swap_def)

lemma stage_step:
  assumes "stage c1 c2 h1 h2 up down s" "session_step T P w s s'"
  shows "\<exists>c1' c2' h1' h2' up' down'. stage c1' c2' h1' h2' up' down' s' \<and> effort c2' h2' s' < effort c2 h2 s"
  using assms(2)
proof cases
  case (client_runs e)
  with stage_client [OF assms(1)] show ?thesis by blast
next
  case (host_runs e)
  have "endpoint_step T P w (client (swap s)) e" using host_runs(2) by (simp add: swap_def)
  from flip.stage_client [OF assms(1) [folded stage_swap] this] obtain h1' h2' down' up' where
    "flip.stage h1' h2' c1 c2 down' up' (swap s\<lparr>client := e\<rparr>)"
    "flip.effort h2' c2 (swap s\<lparr>client := e\<rparr>) < flip.effort h2 c2 (swap s)" by blast
  moreover have "swap s\<lparr>client := e\<rparr> = swap s'" by (simp add: swap_def host_runs(1))
  ultimately show ?thesis unfolding effort_swap stage_swap by (metis effort_swap stage_swap)
next
  case (to_host n)
  with stage_to_host [OF assms(1)] show ?thesis by blast
next
  case (to_client n)
  have n: "n \<le> length (e_out (client (swap s)))" using to_client(3) by (simp add: swap_def)
  have "swap s\<lparr>client := client (swap s)\<lparr>e_out := drop n (e_out (client (swap s)))\<rparr>,
      host := host (swap s)\<lparr>e_in := e_in (host (swap s)) @ take n (e_out (client (swap s)))\<rparr>\<rparr> = swap s'"
    by (simp add: swap_def to_client(1))
  with flip.stage_to_host [OF assms(1) [folded stage_swap] to_client(2) n] show ?thesis
    by (metis effort_swap stage_swap)
qed

lemma run_bounded:
  assumes "session_run T P w n (session_init pc mc tc ph mh th) s"
  shows "\<exists>c1 c2 h1 h2 up down. stage c1 c2 h1 h2 up down s \<and> n + effort c2 h2 s \<le> 100 * (length C + length H)"
  using assms
proof (induction n "session_init pc mc tc ph mh th" s rule: session_run.induct)
  case run_none
  have "stage [] C [] H [] [] (session_init pc mc tc ph mh th)"
    using C_runs H_runs by (simp add: stage_def session_init_def)
  moreover have "effort C H (session_init pc mc tc ph mh th) = 100 * (length C + length H)"
    by (simp add: effort_def session_init_def)
  ultimately show ?case by fastforce
next
  case (run_step n s' s'')
  then obtain c1 c2 h1 h2 up down where s: "stage c1 c2 h1 h2 up down s'"
      "n + effort c2 h2 s' \<le> 100 * (length C + length H)"
    by blast
  from stage_step [OF s(1) run_step(3)] s(2) show ?case by fastforce
qed

lemma stuck_done:
  assumes "stage c1 c2 h1 h2 up down s" "\<nexists>s'. session_step T P w s s'"
  shows "c2 = [] \<and> h2 = []"
proof -
  have outs: "e_out (client s) = []" "e_out (host s) = []"
    using assms(2) session_step.to_host [of "length (e_out (client s))" s T P w]
      session_step.to_client [of "length (e_out (host s))" s T P w] by auto
  have client: "waits c2 \<and> down = []" if "c2 \<noteq> []"
    using stage_progress [OF assms(1) that outs(2)] assms(2) session_step.client_runs by metis
  have host: "waits h2 \<and> up = []" if "h2 \<noteq> []"
    using flip.stage_progress [OF assms(1) [folded stage_swap] that] assms(2) session_step.host_runs outs(1)
    unfolding swap_def by (metis session.select_convs)
  have waits: "recv ls \<noteq> []" if "waits ls" for ls :: "'t label list"
    using that by (auto simp: waits_def)
  note q = stage_queues [OF assms(1)]
  have s: "C = c1 @ c2" "H = h1 @ h2" "sent c1 = recv h1 @ up" "sent h1 = recv c1 @ down"
    using assms(1) by (simp_all add: stage_def)
  show ?thesis
    using client host waits [of c2] waits [of h2] no_deadlock [OF s(1,2)] s(3,4) q(1,2)
    by (cases "c2 = []"; cases "h2 = []") auto
qed

lemma completes:
  assumes "session_run T P w n (session_init pc mc tc ph mh th) s"
  shows "n \<le> 100 * (length C + length H) \<and>
    ((\<nexists>s'. session_step T P w s s') \<longrightarrow> e_prog (client s) = Done rc \<and> e_prog (host s) = Done rh \<and>
       e_mgr (client s) = mgr_after mc C \<and> e_mgr (host s) = mgr_after mh H)"
proof -
  obtain c1 c2 h1 h2 up down where s: "stage c1 c2 h1 h2 up down s"
      "n + effort c2 h2 s \<le> 100 * (length C + length H)"
    using run_bounded [OF assms] by blast
  have "e_prog (client s) = Done rc \<and> e_prog (host s) = Done rh \<and>
      e_mgr (client s) = mgr_after mc C \<and> e_mgr (host s) = mgr_after mh H" if "\<nexists>s'. session_step T P w s s'"
    using s(1) stuck_done [OF s(1) that] by (simp add: stage_def)
  with s(2) show ?thesis by simp
qed

end

subsection \<open>A client and a host that share a secret\<close>

definition client_script :: "ring_api \<Rightarrow> rstring \<Rightarrow> peer_id \<Rightarrow> conn \<Rightarrow> 't peer_candidate \<Rightarrow> 't label list" where
  "client_script R key self_id c cand =
     [LGen (pc_auth cand) (Ok key),
      LSend c (Request self_id (sign R key (id_bytes self_id))) (Ok ()),
      LNext c (Frame (Ok (Response (sign R key (id_bytes (pc_id cand)))))),
      LSend c CompleteRequest (Ok ()),
      LNext c (Frame (Ok CompleteResponse)),
      LSpawn c (pm_id (pc_metadata cand))]"

definition host_script ::
    "ring_api \<Rightarrow> rstring \<Rightarrow> peer_id \<Rightarrow> conn \<Rightarrow> 't manager \<Rightarrow> 't peer_candidate \<Rightarrow> 't label list" where
  "host_script R key self_id c m cand =
     [LNext c (Frame (Ok (Request (pc_id cand) (sign R key (id_bytes (pc_id cand)))))),
      LAtomic m m, LAtomic m m,
      LGen (pc_auth cand) (Ok key),
      LSend c (Response (sign R key (id_bytes self_id))) (Ok ()),
      LNext c (Frame (Ok CompleteRequest)),
      LSend c CompleteResponse (Ok ()),
      LSpawn c (pm_id (pc_metadata cand))]"

definition connected_as :: "connection_type \<Rightarrow> conn \<Rightarrow> 't peer_candidate \<Rightarrow> peer" where
  "connected_as t c cand = \<lparr>p_id = pm_id (pc_metadata cand), p_conn_type = t,
     p_metadata = pc_metadata cand, p_conn = c\<rparr>"

text \<open>Splitting a script at a point where it waits or spawns: only a few points are possible.\<close>

lemma client_waits:
  "client_script R key i c cand = xs @ ys \<Longrightarrow> waits ys \<Longrightarrow>
   length (sent xs) = 1 \<and> length (recv xs) = 0 \<or> length (sent xs) = 2 \<and> length (recv xs) = 1"
  unfolding client_script_def waits_def by (auto simp: Cons_eq_append_conv)

lemma host_waits:
  "host_script R key i c m cand = xs @ ys \<Longrightarrow> waits ys \<Longrightarrow>
   length (sent xs) = 0 \<and> length (recv xs) = 0 \<or> length (sent xs) = 1 \<and> length (recv xs) = 1"
  unfolding host_script_def waits_def by (auto simp: Cons_eq_append_conv)

lemma scripts_tidy:
  "client_script R key i c cand = xs @ l # ys \<Longrightarrow> spawns l \<Longrightarrow> recv ys = []"
  "host_script R key i c m cand = xs @ l # ys \<Longrightarrow> spawns l \<Longrightarrow> recv ys = []"
  unfolding client_script_def host_script_def spawns_def by (auto simp: Cons_eq_append_conv)

locale paired_session = bytes_crate P + ring_crate R + totp_crate T
  for P :: platform and R :: ring_api and T :: "'t totp_api" +
  fixes secret :: bytes and auth :: "'t pairing_authenticator" and w :: nat and key :: rstring
    and client_id host_id :: peer_id and c c' :: conn
    and cand cand' :: "'t peer_candidate" and m m' :: "'t manager" and t t' :: "socket_addr \<Rightarrow> conn option"
  assumes shared: "authenticator_new T secret = Ok auth" "pc_auth cand = auth" "pc_auth cand' = auth"
    and code: "generate T auth (15 * w) = Ok key"
    and ids: "peer_id_ok P client_id" "peer_id_ok P host_id" "pc_id cand = host_id" "pc_id cand' = client_id"
    and lookup: "(case discovered_peers m' client_id of Some d \<Rightarrow> Some d | None \<Rightarrow> known_peers m' client_id) = Some cand'"
begin

lemma code_in_window: "now div 15 = w \<Longrightarrow> generate T auth now = Ok key"
  using generate_same_window [OF shared(1), of now "15 * w"] code by simp

end

sublocale paired_session \<subseteq> dialogue P T w "connect R client_id c cand" "accept R host_id c'" m m' t t'
    "client_script R key client_id c cand" "host_script R key host_id c' m' cand'"
    "Ok (connected_as Client c cand)" "Ok (connected_as Server c' cand')"
proof
  show "runs (connect R client_id c cand) (client_script R key client_id c cand) =
      Some (Done (Ok (connected_as Client c cand)))"
    unfolding connect_Ok_iff client_script_def connected_as_def by auto
  show "runs (accept R host_id c') (host_script R key host_id c' m' cand') =
      Some (Done (Ok (connected_as Server c' cand')))"
    unfolding accept_Ok_iff host_script_def connected_as_def using lookup ids by auto
  show "length (recv h1) < length (sent c1) \<or> length (recv c1) < length (sent h1)"
    if "client_script R key client_id c cand = c1 @ c2" "host_script R key host_id c' m' cand' = h1 @ h2"
      "waits c2" "waits h2" for c1 c2 h1 h2
    using client_waits [OF that(1,3)] host_waits [OF that(2,4)] by auto
  show "recv c2 = []" if "client_script R key client_id c cand = c1 @ l # c2" "spawns l" for c1 l c2
    using that by (rule scripts_tidy)
  show "recv h2 = []" if "host_script R key host_id c' m' cand' = h1 @ l # h2" "spawns l" for h1 l h2
    using that by (rule scripts_tidy)
qed (use ids shared code_in_window in \<open>auto simp: client_script_def host_script_def\<close>)

context paired_session
begin

lemma session_completes:
  assumes "session_run T P w n (session_init (connect R client_id c cand) m t (accept R host_id c') m' t') s"
  shows "n \<le> 1400 \<and> ((\<nexists>s'. session_step T P w s s') \<longrightarrow>
    e_prog (client s) = Done (Ok (connected_as Client c cand)) \<and>
    e_prog (host s) = Done (Ok (connected_as Server c' cand')))"
  using completes [OF assms] by (simp add: client_script_def host_script_def)

end

text \<open>
  The interface of a paired session on the two test nodes, which share a secret of twenty bytes.
\<close>

definition test_auth :: "totp_state pairing_authenticator" where
  "test_auth = \<lparr>totp = \<lparr>ts_digits = 8, ts_skew = 1, ts_step = 15, ts_secret = replicate 20 7\<rparr>\<rparr>"

definition host_candidate :: "totp_state peer_candidate" where
  "host_candidate = candidate_new (test_metadata\<lparr>pm_id := peer_id_default\<rparr>) test_auth"

lemma peer_id_default_ok: "peer_id_ok P peer_id_default"
  unfolding peer_id_default_def
  by (rule ascii_alnum_peer_id) (simp_all add: lit_def ascii_alnum_def ascii_digit_def)

interpretation test_session: paired_session "list_platform checks alnum" reference_ring reference_totp
  "replicate 20 7" test_auth w "hotp (totp test_auth) w" test_id peer_id_default c c'
  host_candidate test_candidate m test_manager t t'
  for checks alnum w c c' m t t'
  by unfold_locales
    (simp_all add: authenticator_new_def reference_totp_def test_auth_def generate_def host_candidate_def
      candidate_new_def test_candidate_def test_manager_def peer_id_default_ok test_metadata_def)

subsection \<open>The properties\<close>

text \<open>
  A client and a host that were paired complete the handshake: if both derive their authenticator
  from the same secret, both generate their password within the same window of fifteen seconds, each
  has the other's identifier and the host knows or has discovered the client, then, however the
  network cuts the bytes into pieces and whichever side runs when, an execution without timeouts ends
  within 1400 steps, and it can only end with both sides connected to each other.
\<close>

theorem handshake_completes:
  assumes "bytes_crate P" and "ring_crate R" and "totp_crate T"
    and "authenticator_new T secret = Ok auth" and "pc_auth cand = auth" and "pc_auth cand' = auth"
    and "generate T auth (15 * w) = Ok key"
    and "peer_id_ok P client_id" and "peer_id_ok P host_id" and "pc_id cand = host_id" and "pc_id cand' = client_id"
    and "(case discovered_peers m' client_id of Some d \<Rightarrow> Some d | None \<Rightarrow> known_peers m' client_id) = Some cand'"
    and "session_run T P w n (session_init (connect R client_id c cand) m t (accept R host_id c') m' t') s"
  shows "n \<le> 1400 \<and> ((\<nexists>s'. session_step T P w s s') \<longrightarrow>
    e_prog (client s) = Done (Ok (connected_as Client c cand)) \<and>
    e_prog (host s) = Done (Ok (connected_as Server c' cand')))"
proof -
  have "paired_session P R T secret auth w key client_id host_id cand cand' m'"
    using assms(1-12) by (simp add: paired_session_def paired_session_axioms_def)
  from paired_session.session_completes [OF this assms(13)] show ?thesis .
qed

type_synonym handshake_result = "(peer, handshake_error) outcome"

definition test_start :: "(totp_state, handshake_result, handshake_result) session" where
  "test_start = session_init (connect reference_ring test_id 1 host_candidate) test_manager Map.empty
     (accept reference_ring peer_id_default 2) test_manager Map.empty"

theorem handshake_completes_witness:
  "\<exists>n s. session_run reference_totp (list_platform True (\<lambda>_. False)) 4 n test_start s \<and>
     e_prog (client s) = Done (Ok (connected_as Client 1 host_candidate)) \<and>
     e_prog (host s) = Done (Ok (connected_as Server 2 test_candidate))"
proof -
  let ?run = "session_run reference_totp (list_platform True (\<lambda>_. False)) 4"
  note completes = handshake_completes [OF list_buffers.bytes_crate_axioms reference_ring.ring_crate_axioms
      reference_totp.totp_crate_axioms test_session.shared test_session.code test_session.ids
      test_session.lookup, where m = test_manager and c = 1 and c' = 2 and t = Map.empty and t' = Map.empty, folded test_start_def]
  have bound: "m \<le> 1400" if "?run m test_start s" for m s using completes [OF that] by simp
  obtain n s where s: "?run n test_start s"
      "\<nexists>s'. session_step reference_totp (list_platform True (\<lambda>_. False)) 4 s s'"
    using longest_run [of reference_totp "list_platform True (\<lambda>_. False)" 4 test_start 1400] bound by blast
  with completes [OF s(1)] show ?thesis by blast
qed

text \<open>
  C36. The tolerance of one time step that the authenticator is configured with does not apply to the
  handshake. A client whose clock is at most one step away from the host's signs with a password
  that the authenticator's own \<open>check\<close> would accept; but the host compares the tag with the one of its own
  password, so unless the two tags are equal it answers the paired client with the authentication failure.
\<close>

theorem clock_skew_rejected:
  assumes "ring_crate R" and "totp_crate T" and "authenticator_new T secret = Ok (pc_auth cand)"
    and "(case discovered_peers m i of Some d \<Rightarrow> Some d | None \<Rightarrow> known_peers m i) = Some cand"
    and "generate T (pc_auth cand) now = Ok key" and "generate T (pc_auth cand) now' = Ok key'"
    and "now' div 15 \<le> now div 15 + 1" and "now div 15 \<le> now' div 15 + 1"
    and "sign R key' (id_bytes (pc_id cand)) \<noteq> sign R key (id_bytes (pc_id cand))"
  shows "check T (pc_auth cand) key' now = Ok True \<and>
    runs (accept R self_id c) [LNext c (Frame (Ok (Request i (sign R key' (id_bytes (pc_id cand)))))),
      LAtomic m m, LAtomic m m, LGen (pc_auth cand) (generate T (pc_auth cand) now),
      LSend c (Failure AUTH_ERR) (Ok ())] = Some (Done (Err HsAuth))"
proof
  show "check T (pc_auth cand) key' now = Ok True"
    using totp_crate.check_neighbours [OF assms(2,3,6,7,8)] .
  have "verify R key (id_bytes (pc_id cand)) (sign R key' (id_bytes (pc_id cand))) \<noteq> Ok ()"
    using ring_crate.verify_Ok_iff [OF assms(1)] assms(9) by blast
  with assms(4,5) show "runs (accept R self_id c) [LNext c (Frame (Ok (Request i (sign R key' (id_bytes (pc_id cand)))))),
      LAtomic m m, LAtomic m m, LGen (pc_auth cand) (generate T (pc_auth cand) now),
      LSend c (Failure AUTH_ERR) (Ok ())] = Some (Done (Err HsAuth))"
    by (simp add: accept_def next_frame_def get_peer_candidate_def generate_code_def send_failure_def)
qed

text \<open>
  Instances in which passwords and tags can be computed by hand: the password is the counter in
  decimal, and the tag the key, padded to its length.
\<close>

definition counter_totp :: "totp_state totp_api" where
  "counter_totp = reference_totp\<lparr>
     totp_generate_current := (\<lambda>t now. Ok (dec_digits (now div ts_step t))),
     totp_check_current := (\<lambda>t token now. Ok (\<exists>d \<in> set [0..<Suc (2 * ts_skew t)].
       token = dec_digits (now div ts_step t + d - ts_skew t)))\<rparr>"

interpretation counter_totp: totp_crate counter_totp
proof
  show "totp_check_current counter_totp t token now = Ok True"
    if "totp_new counter_totp alg digits skew step secret iss acc = Ok t" "0 < step"
      "totp_generate_current counter_totp t now' = Ok token"
      "now' div step \<le> now div step + skew" "now div step \<le> now' div step + skew"
    for alg digits skew step secret iss acc t now' token now
    using that skew_tried [OF that(4,5), of dec_digits]
    by (auto simp: counter_totp_def reference_totp_def split: if_split_asm)
qed (auto simp: counter_totp_def reference_totp_def base32_decode_encode split: if_splits)

definition padding_ring :: ring_api where
  "padding_ring = \<lparr>hmac_sha256 = (\<lambda>key m. take 32 (key @ replicate 32 0)),
     hmac_verify = (\<lambda>key m tag. tag = take 32 (key @ replicate 32 0)), digest_sha256 = sha256\<rparr>"

interpretation padding_ring: ring_crate padding_ring
  by unfold_locales (simp_all add: padding_ring_def sha256_def Let_def)

theorem clock_skew_rejected_witness:
  "check counter_totp (pc_auth test_candidate) (dec_digits 3) 60 = Ok True \<and>
   runs (accept padding_ring peer_id_default 3) [
     LNext 3 (Frame (Ok (Request test_id (sign padding_ring (dec_digits 3) (id_bytes (pc_id test_candidate)))))),
     LAtomic test_manager test_manager, LAtomic test_manager test_manager,
     LGen (pc_auth test_candidate) (generate counter_totp (pc_auth test_candidate) 60),
     LSend 3 (Failure AUTH_ERR) (Ok ())] = Some (Done (Err HsAuth))"
proof (rule clock_skew_rejected [OF padding_ring.ring_crate_axioms counter_totp.totp_crate_axioms])
  show "authenticator_new counter_totp (replicate 20 7) = Ok (pc_auth test_candidate)"
    by (simp add: authenticator_new_def counter_totp_def reference_totp_def test_candidate_def candidate_new_def)
  show "(case discovered_peers test_manager test_id of Some d \<Rightarrow> Some d | None \<Rightarrow> known_peers test_manager test_id) =
      Some test_candidate"
    by (simp add: test_manager_def)
  show "generate counter_totp (pc_auth test_candidate) 60 = Ok (dec_digits 4)"
    "generate counter_totp (pc_auth test_candidate) 59 = Ok (dec_digits 3)"
    by (simp_all add: generate_def counter_totp_def test_candidate_def candidate_new_def)
  show "sign padding_ring (dec_digits 3) (id_bytes (pc_id test_candidate)) \<noteq>
      sign padding_ring (dec_digits 4) (id_bytes (pc_id test_candidate))"
    by (simp add: sign_def padding_ring_def dec_digits_def radix_digits.simps digit_char_def byte_of_def)
qed simp_all

end
