(* ===== verification/Connection.thy ===== *)
theory Connection
  imports Session Event_Loop
begin

text \<open>
  A connection from end to end: the client runs the whole of \<open>connect_to_peer\<close>, with the lookup of the
  candidate, the addresses and the entry in its connected set, and the host the whole task that its
  event loop starts for an accepted connection. The scripts of the handshake are wrapped by the
  effects before and after it.
\<close>

subsection \<open>Wrapping a script\<close>

text \<open>Effects that neither use the connection nor spawn.\<close>

definition quiet :: "'t label list \<Rightarrow> bool" where
  "quiet ls = list_all (\<lambda>l. case l of LAtomic _ _ \<Rightarrow> True | LTcp _ _ \<Rightarrow> True | _ \<Rightarrow> False) ls"

lemma quiet_simps [simp]:
  "quiet []" "quiet (LAtomic m m' # ls) = quiet ls" "quiet (LTcp a x # ls) = quiet ls"
  "quiet (xs @ ys) = (quiet xs \<and> quiet ys)" "quiet (map (\<lambda>a. LTcp a (f a)) as)"
  by (auto simp: quiet_def list_all_iff)

lemma quiet_silent: "quiet ls \<Longrightarrow> sent ls = [] \<and> recv ls = []"
  by (induction ls) (auto simp: quiet_def split: label.split_asm)

lemma quiet_not: "quiet (l # ls) \<Longrightarrow> \<not> spawns l \<and> \<not> waits (l # ls)"
  by (auto simp: quiet_def spawns_def waits_def split: label.split_asm)

text \<open>A label that is not quiet stands in the middle.\<close>

lemma wrapped_split:
  assumes "quiet pre" "quiet post" "pre @ cs @ post = xs @ l # ys" "\<not> quiet [l]"
  shows "\<exists>xs' ys'. cs = xs' @ l # ys' \<and> xs = pre @ xs' \<and> ys = ys' @ post"
proof -
  have l: "l \<notin> set pre" "l \<notin> set post"
    using assms(1,2,4) by (auto simp: quiet_def list_all_iff)
  from assms(3) consider (early) us where "pre = xs @ us" "us @ cs @ post = l # ys"
    | (late) us where "xs = pre @ us" "cs @ post = us @ l # ys"
    by (auto simp: append_eq_append_conv2)
  then show ?thesis
  proof cases
    case early
    with l(1) have "us = []" by (cases us) auto
    with early l(2) show ?thesis by (cases cs) (auto simp: Cons_eq_append_conv)
  next
    case late
    from late(2) consider vs where "cs = us @ vs" "vs @ post = l # ys" | vs where "us = cs @ vs" "post = vs @ l # ys"
      by (auto simp: append_eq_append_conv2)
    then show ?thesis
    proof cases
      case 1
      with l(2) late(1) show ?thesis by (cases vs) auto
    next
      case 2
      with l(2) show ?thesis by simp
    qed
  qed
qed

lemma wrapped_waits:
  assumes "quiet pre" "quiet post" "pre @ cs @ post = xs @ ys" "waits ys"
  obtains xs' ys' where "cs = xs' @ ys'" "waits ys'" "sent xs = sent xs'" "recv xs = recv xs'"
proof -
  obtain c msg rest where ys: "ys = LNext c (Frame (Ok msg)) # rest"
    using assms(4) by (auto simp: waits_def)
  have "\<not> quiet [LNext c (Frame (Ok msg)) :: 'a label]" by (simp add: quiet_def)
  from wrapped_split [OF assms(1,2) assms(3) [unfolded ys] this] obtain xs' ys' where
    "cs = xs' @ LNext c (Frame (Ok msg)) # ys'" "xs = pre @ xs'" by blast
  then show thesis
    using that [of xs' "LNext c (Frame (Ok msg)) # ys'"] quiet_silent [OF assms(1)]
    by (simp add: sent_append recv_append waits_def)
qed

lemma wrapped_tidy:
  assumes "quiet pre" "quiet post" "\<And>xs l ys. cs = xs @ l # ys \<Longrightarrow> spawns l \<Longrightarrow> recv ys = []"
    and "pre @ cs @ post = xs @ l # ys" "spawns l"
  shows "recv ys = []"
proof -
  have "\<not> quiet [l]" using assms(5) quiet_not by blast
  from wrapped_split [OF assms(1,2,4) this] obtain xs' ys' where "cs = xs' @ l # ys'" "ys = ys' @ post" by blast
  with assms(3,5) quiet_silent [OF assms(2)] show ?thesis by (simp add: recv_append)
qed

subsection \<open>A client and a host that share a secret\<close>

definition connected_host :: "conn \<Rightarrow> 't peer_candidate \<Rightarrow> 't manager \<Rightarrow> 't manager" where
  "connected_host c cand m = send_app (PeerConnected (connected_as Server c cand))
     (insert_connected (pm_id (pc_metadata cand)) m)"

locale paired_connection = paired_session +
  fixes order :: "socket_addr set \<Rightarrow> socket_addr list" and failed later :: "socket_addr list" and addr :: socket_addr
  assumes found: "discovered_peers m host_id = Some cand" and fresh: "host_id \<notin> connected_peers m"
    and addrs: "order (pc_addrs cand) = failed @ addr # later"
    and reach: "list_all (\<lambda>a. t a = None) failed" "t addr = Some c"
begin

definition client_before :: "'a label list" where
  "client_before = [LAtomic m m, LAtomic m m] @ map (\<lambda>a. LTcp a (t a)) failed @ [LTcp addr (Some c)]"

definition client_after :: "'a label list" where
  "client_after = [LAtomic m (insert_connected host_id m)]"

definition host_after :: "'a label list" where
  "host_after = (let p = pm_id (pc_metadata cand') in
     [LAtomic m' (insert_connected p m'), LAtomic (insert_connected p m') (connected_host c' cand' m')])"

definition client_side :: "'a label list" where
  "client_side = client_before @ client_script R key client_id c cand @ client_after"

definition host_side :: "'a label list" where
  "host_side = [] @ host_script R key host_id c' m' cand' @ host_after"

lemma wraps_quiet: "quiet client_before" "quiet client_after" "quiet host_after"
  by (simp_all add: client_before_def client_after_def host_after_def Let_def)

lemma client_side_runs:
  "runs (connect_to_peer R order client_id host_id) client_side = Some (Done (Ok (connected_as Client c cand)))"
proof -
  have "map (\<lambda>a. LTcp a (t a)) failed = map (\<lambda>a. LTcp a None) failed"
    using reach(1) by (induction failed) simp_all
  then have "reached (order (pc_addrs cand)) (\<lambda>b hs. finish_connect R client_id host_id cand b hs
      (Ok (connected_as Client c cand))) (map (\<lambda>a. LTcp a (t a)) failed @ LTcp addr (Some c) #
      client_script R key client_id c cand @ client_after)"
    unfolding reached_def addrs finish_connect_def using C_runs
    by (intro exI [of _ failed] exI [of _ addr] exI [of _ later] exI [of _ c]) (auto simp: client_after_def butlast_append)
  then have "runs (try_addrs R client_id host_id cand (order (pc_addrs cand))) (map (\<lambda>a. LTcp a (t a)) failed @
      LTcp addr (Some c) # client_script R key client_id c cand @ client_after) =
      Some (Done (Ok (connected_as Client c cand)))"
    unfolding runs_try_addrs by blast
  then show ?thesis
    unfolding runs_connect_to_peer client_side_def client_before_def using found fresh by auto
qed

lemma host_side_runs: "runs (accept_task R host_id c') host_side = Some (Done ())"
proof -
  have "runs (handle_new_connection (connected_as Server c' cand')) host_after = Some (Done ())"
    by (simp add: handle_new_connection_def host_after_def connected_host_def connected_as_def Let_def)
  with H_runs show ?thesis
    unfolding accept_task_def runs_pbind_iff [OF ended_simps(1)] host_side_def append_Nil
    by (intro disjI1 exI [of _ "Ok (connected_as Server c' cand')"] exI [of _ "host_script R key host_id c' m' cand'"]
        exI [of _ host_after]) simp
qed

lemma sides_managed:
  "managed m client_side" "mgr_after m client_side = insert_connected host_id m"
  "managed m' host_side" "mgr_after m' host_side = connected_host c' cand' m'"
proof -
  have tcp: "managed m (map (\<lambda>a. LTcp a (t a)) failed) \<and> mgr_after m (map (\<lambda>a. LTcp a (t a)) failed) = m"
    by (induction failed) simp_all
  show "managed m client_side" "mgr_after m client_side = insert_connected host_id m"
    "managed m' host_side" "mgr_after m' host_side = connected_host c' cand' m'"
    using tcp
    by (simp_all add: client_side_def client_before_def client_after_def client_script_def host_side_def
        host_script_def host_after_def Let_def managed_append mgr_after_append)
qed

end

sublocale paired_connection \<subseteq> whole: dialogue P T w "connect_to_peer R order client_id host_id"
    "accept_task R host_id c'" m m' t t' client_side host_side "Ok (connected_as Client c cand)" "()"
proof
  show "runs (connect_to_peer R order client_id host_id) client_side = Some (Done (Ok (connected_as Client c cand)))"
    by (rule client_side_runs)
  show "runs (accept_task R host_id c') host_side = Some (Done ())"
    by (rule host_side_runs)
  show "list_all (label_ok T P w t) client_side"
    using C_ok reach by (auto simp: client_side_def client_before_def client_after_def list_all_iff)
  show "list_all (label_ok T P w t') host_side"
    using H_ok by (simp add: host_side_def host_after_def Let_def)
  show "managed m client_side" "managed m' host_side" by (rule sides_managed)+
  show "sent client_side = recv host_side" "sent host_side = recv client_side"
    using C_sent H_sent wraps_quiet [THEN quiet_silent]
    by (simp_all add: client_side_def host_side_def sent_append recv_append)
  show "length (recv h1) < length (sent c1) \<or> length (recv c1) < length (sent h1)"
    if cs: "client_side = c1 @ c2" and hs: "host_side = h1 @ h2" and wc: "waits c2" and wh: "waits h2" for c1 c2 h1 h2
  proof -
    obtain c1' c2' where "client_script R key client_id c cand = c1' @ c2'" "waits c2'" "sent c1 = sent c1'" "recv c1 = recv c1'"
      using wrapped_waits [OF wraps_quiet(1,2) cs [unfolded client_side_def] wc] by metis
    moreover obtain h1' h2' where "host_script R key host_id c' m' cand' = h1' @ h2'" "waits h2'"
        "sent h1 = sent h1'" "recv h1 = recv h1'"
      using wrapped_waits [OF quiet_simps(1) wraps_quiet(3) hs [unfolded host_side_def] wh] by metis
    ultimately show ?thesis using no_deadlock [of c1' c2' h1' h2'] by simp
  qed
  show "recv c2 = []" if "client_side = c1 @ l # c2" "spawns l" for c1 l c2
    using wrapped_tidy [OF wraps_quiet(1,2) C_tidy that(1) [unfolded client_side_def] that(2)] .
  show "recv h2 = []" if "host_side = h1 @ l # h2" "spawns l" for h1 l h2
    using wrapped_tidy [OF quiet_simps(1) wraps_quiet(3) H_tidy that(1) [unfolded host_side_def] that(2)] .
qed

context paired_connection
begin

lemma connection_completes:
  assumes "session_run T P w n (session_init (connect_to_peer R order client_id host_id) m t (accept_task R host_id c') m' t') s"
  shows "n \<le> 100 * (20 + length failed) \<and> ((\<nexists>s'. session_step T P w s s') \<longrightarrow>
    e_prog (client s) = Done (Ok (connected_as Client c cand)) \<and> e_prog (host s) = Done () \<and>
    e_mgr (client s) = insert_connected host_id m \<and> e_mgr (host s) = connected_host c' cand' m')"
proof -
  have len: "length client_side + length host_side = 20 + length failed"
    by (simp add: client_side_def client_before_def client_after_def client_script_def host_side_def
        host_script_def host_after_def Let_def)
  show ?thesis using whole.completes [OF assms] by (simp add: sides_managed len)
qed

end

text \<open>
  The interface on two test nodes: one has discovered the other at an address that answers, after one
  that does not, and is known to it.
\<close>

definition host_found :: "totp_state peer_candidate" where
  "host_found = host_candidate\<lparr>pc_addrs := {V4 LOCALHOST 1, V4 LOCALHOST 2}\<rparr>"

definition client_manager :: "totp_state manager" where
  "client_manager = test_manager\<lparr>discovered_peers := [peer_id_default \<mapsto> host_found]\<rparr>"

definition second_answers :: "socket_addr \<Rightarrow> conn option" where
  "second_answers = [V4 LOCALHOST 2 \<mapsto> 1]"

interpretation test_connection: paired_connection "list_platform checks alnum" reference_ring reference_totp
  "replicate 20 7" test_auth w "hotp (totp test_auth) w" test_id peer_id_default 1 c'
  host_found test_candidate client_manager test_manager second_answers t'
  "\<lambda>_. [V4 LOCALHOST 1, V4 LOCALHOST 2]" "[V4 LOCALHOST 1]" "[]" "V4 LOCALHOST 2"
  for checks alnum w c' t'
proof -
  have "pc_auth host_found = test_auth" "pc_id host_found = peer_id_default"
    using test_session.shared(2) test_session.ids(3) by (simp_all add: host_found_def)
  then show "paired_connection (list_platform checks alnum) reference_ring reference_totp (replicate 20 7) test_auth w
      (hotp (totp test_auth) w) test_id peer_id_default 1 host_found test_candidate client_manager test_manager
      second_answers (\<lambda>_. [V4 LOCALHOST 1, V4 LOCALHOST 2]) [V4 LOCALHOST 1] [] (V4 LOCALHOST 2)"
    using test_session.shared test_session.code test_session.ids test_session.lookup
    by unfold_locales (auto simp: client_manager_def second_answers_def test_manager_def)
qed

subsection \<open>The property\<close>

text \<open>
  C1. Two paired nodes connect: a client that has discovered the host, is not connected to it and
  reaches it at one of the discovered addresses, and a host that knows or has discovered the
  client, with the same secret and passwords from the same window of fifteen seconds. However the
  network cuts the bytes and whichever side runs when, an execution without timeouts ends within a
  hundred steps per effect, and it can only end with \<open>connect_to_peer\<close> having returned the host as a
  peer and entered it into the client's connected set, and with the client in the host's
  connected set and reported to the host's application; nothing else of either manager has changed.
\<close>

theorem connection_established:
  assumes "bytes_crate P" and "ring_crate R" and "totp_crate T"
    and "authenticator_new T secret = Ok auth" and "pc_auth cand = auth" and "pc_auth cand' = auth"
    and "generate T auth (15 * w) = Ok key"
    and "peer_id_ok P client_id" and "peer_id_ok P host_id" and "pc_id cand = host_id" and "pc_id cand' = client_id"
    and "(case discovered_peers B client_id of Some d \<Rightarrow> Some d | None \<Rightarrow> known_peers B client_id) = Some cand'"
    and "discovered_peers A host_id = Some cand" and "host_id \<notin> connected_peers A"
    and "order (pc_addrs cand) = failed @ addr # later"
    and "list_all (\<lambda>a. tcp a = None) failed" and "tcp addr = Some c"
    and "pm_id (pc_metadata cand') = client_id"
    and "session_run T P w n
      (session_init (connect_to_peer R order client_id host_id) A tcp (accept_task R host_id c') B tcp') s"
  shows "n \<le> 100 * (20 + length failed) \<and> ((\<nexists>s'. session_step T P w s s') \<longrightarrow>
    e_prog (client s) = Done (Ok (connected_as Client c cand)) \<and>
    e_mgr (client s) = A\<lparr>connected_peers := insert host_id (connected_peers A)\<rparr> \<and>
    e_prog (host s) = Done () \<and>
    e_mgr (host s) = B\<lparr>connected_peers := insert client_id (connected_peers B),
      app_channel := app_channel B @ [PeerConnected (connected_as Server c' cand')]\<rparr>)"
proof -
  have "paired_connection P R T secret auth w key client_id host_id c cand cand' A B tcp order failed later addr"
    using assms(1-17)
    by (simp add: paired_connection_def paired_connection_axioms_def paired_session_def paired_session_axioms_def)
  from paired_connection.connection_completes [OF this assms(19)] show ?thesis
    by (simp add: connected_host_def manager_ops assms(18))
qed

definition test_connect :: "(totp_state, handshake_result, unit) session" where
  "test_connect = session_init
     (connect_to_peer reference_ring (\<lambda>_. [V4 LOCALHOST 1, V4 LOCALHOST 2]) test_id peer_id_default)
     client_manager second_answers (accept_task reference_ring peer_id_default 2) test_manager Map.empty"

theorem connection_established_witness:
  "\<exists>n s. session_run reference_totp (list_platform True (\<lambda>_. False)) 4 n test_connect s \<and>
     peer_id_default \<in> connected_peers (e_mgr (client s)) \<and> test_id \<in> connected_peers (e_mgr (host s)) \<and>
     app_channel (e_mgr (host s)) = [PeerConnected (connected_as Server 2 test_candidate)]"
proof -
  have pm: "pm_id (pc_metadata test_candidate) = test_id"
    by (simp add: test_candidate_def candidate_new_def test_metadata_def)
  note completes = connection_established [OF list_buffers.bytes_crate_axioms reference_ring.ring_crate_axioms
      reference_totp.totp_crate_axioms test_connection.shared test_connection.code test_connection.ids
      test_connection.lookup test_connection.found test_connection.fresh test_connection.addrs test_connection.reach
      pm, where c' = 2 and tcp' = Map.empty, folded test_connect_def]
  have bound: "m \<le> 2100" if "session_run reference_totp (list_platform True (\<lambda>_. False)) 4 m test_connect s" for m s
    using completes [OF that] by simp
  obtain n s where
    s: "session_run reference_totp (list_platform True (\<lambda>_. False)) 4 n test_connect s"
       "\<nexists>s'. session_step reference_totp (list_platform True (\<lambda>_. False)) 4 s s'"
    using longest_run [of reference_totp "list_platform True (\<lambda>_. False)" 4 test_connect 2100] bound by blast
  have "app_channel test_manager = []" by (simp add: test_manager_def)
  with completes [OF s(1)] s show ?thesis by (intro exI [of _ n] exI [of _ s]) simp
qed

end
