(* ===== verification/System.thy ===== *)
theory System
  imports Event_Loop
begin

text \<open>
  A node as its runtime sees it: one event loop and any number of tasks (calls of the application,
  handshakes, transport loops of connections), interleaved at every effect, over one shared
  manager. The locale \<open>shared_manager\<close> is a rely/guarantee rule for such systems; it is interpreted
  with the invariant that makes pairing meaningful, so that the properties hold for every
  interleaving, every answer of the network and every behaviour of the peers. Two interleavings
  that the code does not exclude are worked out at the end.
\<close>

subsection \<open>The tasks of a node\<close>

datatype 't app_call =
    AddKnownPeer "'t peer_candidate"
  | RequestPresence
  | IsDiscovered peer_id
  | IsConnected peer_id
  | ConnectToPeer peer_id

fun app_task ::
    "ring_api \<Rightarrow> (socket_addr set \<Rightarrow> socket_addr list) \<Rightarrow> peer_id \<Rightarrow> 't app_call \<Rightarrow> ('t, unit) prog" where
  "app_task R order self_id (AddKnownPeer c) = add_known_peer c"
| "app_task R order self_id RequestPresence = request_presence"
| "app_task R order self_id (IsDiscovered i) = pbind (is_discovered i) (\<lambda>_. Done ())"
| "app_task R order self_id (IsConnected i) = pbind (is_connected i) (\<lambda>_. Done ())"
| "app_task R order self_id (ConnectToPeer i) = pbind (connect_to_peer R order self_id i) (\<lambda>_. Done ())"

text \<open>
  One effect of a task: the manager and the rest of the task afterwards, and the tasks it spawns.
  Everything but the manager answers as it likes. The transport loop of a connection may end at
  any time, and tells the manager then.
\<close>

inductive effect :: "'t manager \<Rightarrow> ('t, 'r) prog \<Rightarrow> 't manager \<Rightarrow> ('t, 'r) prog \<Rightarrow> ('t, unit) prog list \<Rightarrow> bool" where
  eff_atomic: "effect m (Atomic u k) (u m) (k m) []"
| eff_tcp: "effect m (Tcp a k) m (k x) []"
| eff_gen: "effect m (Gen b k) m (k x) []"
| eff_send: "effect m (Send c msg k) m (k x) []"
| eff_next: "effect m (Next c k) m (k x) []"
| eff_spawn: "effect m (Spawn c i p) m p [peer_disconnected i]"

inductive_cases effect_elims [elim!]:
  "effect m (Done r) m' p ts" "effect m Crash m' p ts" "effect m (Atomic u k) m' p ts"
  "effect m (Tcp a k) m' p ts" "effect m (Gen b k) m' p ts" "effect m (Send c msg k) m' p ts"
  "effect m (Next c k) m' p ts" "effect m (Spawn c i q) m' p ts"

text \<open>The event loop is \<open>Some (Done ())\<close> while it waits for an event, and \<open>None\<close> once it has ended.\<close>

record 't node =
  n_manager :: "'t manager"
  n_loop :: "('t, unit) prog option"
  n_tasks :: "('t, unit) prog list"

inductive node_step ::
    "ring_api \<Rightarrow> (socket_addr set \<Rightarrow> socket_addr list) \<Rightarrow> peer_id \<Rightarrow> ('t app_call \<Rightarrow> bool) \<Rightarrow>
     't node \<Rightarrow> 't node \<Rightarrow> bool"
  for R order self_id allowed where
  app_calls: "allowed c \<Longrightarrow>
     node_step R order self_id allowed s (s\<lparr>n_tasks := n_tasks s @ [app_task R order self_id c]\<rparr>)"
| loop_event: "n_loop s = Some (Done ()) \<Longrightarrow> p2p_event_loop R self_id e = Continue p ts \<Longrightarrow>
     node_step R order self_id allowed s (s\<lparr>n_loop := Some p, n_tasks := n_tasks s @ ts\<rparr>)"
| loop_end: "n_loop s = Some (Done ()) \<Longrightarrow> p2p_event_loop R self_id e = (Break :: 't loop_turn) \<Longrightarrow>
     node_step R order self_id allowed s (s\<lparr>n_loop := None\<rparr>)"
| loop_runs: "n_loop s = Some p \<Longrightarrow> effect (n_manager s) p m' p' ts \<Longrightarrow>
     node_step R order self_id allowed s
       (s\<lparr>n_manager := m', n_loop := Some p', n_tasks := n_tasks s @ ts\<rparr>)"
| task_runs: "j < length (n_tasks s) \<Longrightarrow> effect (n_manager s) (n_tasks s ! j) m' p' ts \<Longrightarrow>
     node_step R order self_id allowed s
       (s\<lparr>n_manager := m', n_tasks := (n_tasks s)[j := p'] @ ts\<rparr>)"

text \<open>A node starts with the manager \<open>P2pManager::new\<close> makes and the loop it spawns.\<close>

definition node_init :: "peer_metadata \<Rightarrow> 't node" where
  "node_init md = \<lparr>n_manager = \<lparr>m_id = pm_id md, m_metadata = md, known_peers = Map.empty,
     discovered_peers = Map.empty, connected_peers = {}, discovery_channel = [], app_channel = []\<rparr>,
     n_loop = Some (Done ()), n_tasks = []\<rparr>"

inductive reachable ::
    "ring_api \<Rightarrow> (socket_addr set \<Rightarrow> socket_addr list) \<Rightarrow> peer_metadata \<Rightarrow> ('t app_call \<Rightarrow> bool) \<Rightarrow>
     't node \<Rightarrow> bool"
  for R order md allowed where
  reach_init: "reachable R order md allowed (node_init md)"
| reach_step: "reachable R order md allowed s \<Longrightarrow> node_step R order (pm_id md) allowed s s' \<Longrightarrow>
     reachable R order md allowed s'"

subsection \<open>Rely and guarantee\<close>

text \<open>
  \<open>obeys rely guar up Q p m\<close>: started in \<open>m\<close>, with an environment that changes the manager as
  \<open>rely\<close> says between any two effects, every effect of \<open>p\<close> changes it as \<open>guar\<close> says, \<open>p\<close> only
  spawns transport loops of peers in \<open>up\<close>, and it only returns values in \<open>Q\<close>.
\<close>

primrec obeys ::
    "('t manager \<Rightarrow> 't manager \<Rightarrow> bool) \<Rightarrow> ('t manager \<Rightarrow> 't manager \<Rightarrow> bool) \<Rightarrow> (peer_id \<Rightarrow> bool) \<Rightarrow>
     ('r \<Rightarrow> bool) \<Rightarrow> ('t, 'r) prog \<Rightarrow> 't manager \<Rightarrow> bool" where
  "obeys rely guar up Q (Done r) m = Q r"
| "obeys rely guar up Q Crash m = True"
| "obeys rely guar up Q (Atomic u k) m =
     (\<forall>m'. rely m m' \<longrightarrow> guar m' (u m') \<and> obeys rely guar up Q (k m') (u m'))"
| "obeys rely guar up Q (Tcp a k) m = (\<forall>x. obeys rely guar up Q (k x) m)"
| "obeys rely guar up Q (Gen b k) m = (\<forall>x. obeys rely guar up Q (k x) m)"
| "obeys rely guar up Q (Send c msg k) m = (\<forall>x. obeys rely guar up Q (k x) m)"
| "obeys rely guar up Q (Next c k) m = (\<forall>x. obeys rely guar up Q (k x) m)"
| "obeys rely guar up Q (Spawn c i p) m = (up i \<and> obeys rely guar up Q p m)"

lemma obeys_stable:
  assumes "transp rely" "rely m m'" "obeys rely guar up Q p m"
  shows "obeys rely guar up Q p m'"
  using assms(2,3)
proof (induction p arbitrary: m m')
  case (Atomic u k)
  then show ?case using assms(1) by (auto dest: transpD)
qed auto

text \<open>Sequencing: the second part is started in a state the first part or its environment left.\<close>

lemma obeys_pbind:
  assumes "obeys rely guar up Q p m" "J m"
    and "\<And>a b. guar a b \<Longrightarrow> J b" "\<And>r m. Q r \<Longrightarrow> J m \<Longrightarrow> obeys rely guar up Q' (f r) m"
  shows "obeys rely guar up Q' (pbind p f) m"
  using assms(1,2) by (induction p arbitrary: m) (auto intro: assms(3,4))

locale shared_manager =
  fixes J :: "'t manager \<Rightarrow> bool"
    and rely guar loop_rely loop_guar :: "'t manager \<Rightarrow> 't manager \<Rightarrow> bool"
    and up :: "peer_id \<Rightarrow> bool"
    and R :: ring_api and order :: "socket_addr set \<Rightarrow> socket_addr list"
    and md :: peer_metadata and allowed :: "'t app_call \<Rightarrow> bool"
  assumes rely_refl: "J m \<Longrightarrow> rely m m" and rely_trans: "transp rely"
    and loop_rely_refl: "J m \<Longrightarrow> loop_rely m m" and loop_rely_trans: "transp loop_rely"
    and guar_rely: "guar m m' \<Longrightarrow> rely m m'"
    and guar_loop_rely: "guar m m' \<Longrightarrow> loop_rely m m'"
    and loop_guar_rely: "loop_guar m m' \<Longrightarrow> rely m m'"
    and rely_J: "rely m m' \<Longrightarrow> J m'"
    and init_J: "J (n_manager (node_init md))"
    and app_obeys: "allowed c \<Longrightarrow> J m \<Longrightarrow>
      obeys rely guar up (\<lambda>_. True) (app_task R order (pm_id md) c) m"
    and loop_obeys: "p2p_event_loop R (pm_id md) e = Continue p ts \<Longrightarrow> J m \<Longrightarrow>
      obeys loop_rely loop_guar up (\<lambda>_. True) p m \<and>
      (\<forall>t \<in> set ts. obeys rely guar up (\<lambda>_. True) t m)"
    and up_obeys: "up i \<Longrightarrow> J m \<Longrightarrow> obeys rely guar up (\<lambda>_. True) (peer_disconnected i) m"
begin

definition node_ok :: "'t node \<Rightarrow> bool" where
  "node_ok s = (J (n_manager s) \<and>
     (\<forall>p. n_loop s = Some p \<longrightarrow> obeys loop_rely loop_guar up (\<lambda>_. True) p (n_manager s)) \<and>
     (\<forall>t \<in> set (n_tasks s). obeys rely guar up (\<lambda>_. True) t (n_manager s)))"

text \<open>An effect of a task that obeys its guarantee, and what it leaves.\<close>

lemma task_effect:
  assumes "effect m p m' p' ts" "obeys rely guar up (\<lambda>_. True) p m" "J m"
  shows "(m' = m \<or> guar m m') \<and> obeys rely guar up (\<lambda>_. True) p' m' \<and>
    (\<forall>t \<in> set ts. obeys rely guar up (\<lambda>_. True) t m')"
  using assms by (cases rule: effect.cases) (auto intro: rely_refl up_obeys)

lemma loop_effect:
  assumes "effect m p m' p' ts" "obeys loop_rely loop_guar up (\<lambda>_. True) p m" "J m"
  shows "(m' = m \<or> loop_guar m m') \<and> obeys loop_rely loop_guar up (\<lambda>_. True) p' m' \<and>
    (\<forall>t \<in> set ts. obeys rely guar up (\<lambda>_. True) t m')"
  using assms by (cases rule: effect.cases) (auto intro: loop_rely_refl up_obeys)

lemma node_ok_step:
  assumes "node_step R order (pm_id md) allowed s s'" "node_ok s"
  shows "node_ok s' \<and> (n_manager s' = n_manager s \<or> rely (n_manager s) (n_manager s'))"
  using assms
proof (cases rule: node_step.cases)
  case (app_calls c)
  with assms(2) show ?thesis by (auto simp: node_ok_def app_obeys)
next
  case (loop_event e p ts)
  with assms(2) loop_obeys [OF loop_event(3)] show ?thesis by (auto simp: node_ok_def)
next
  case (loop_end e)
  with assms(2) show ?thesis by (auto simp: node_ok_def)
next
  case (loop_runs p m' p' ts)
  have eff: "m' = n_manager s \<or> loop_guar (n_manager s) m'"
    and new: "obeys loop_rely loop_guar up (\<lambda>_. True) p' m'"
      "\<forall>t \<in> set ts. obeys rely guar up (\<lambda>_. True) t m'"
    using loop_effect [OF loop_runs(3)] loop_runs(2) assms(2) by (auto simp: node_ok_def)
  then have step: "rely (n_manager s) m'"
    using assms(2) by (auto simp: node_ok_def intro: rely_refl loop_guar_rely)
  have "obeys rely guar up (\<lambda>_. True) t m'" if "t \<in> set (n_tasks s)" for t
    using assms(2) that obeys_stable [OF rely_trans step] unfolding node_ok_def by blast
  with new step show ?thesis by (auto simp: loop_runs(1) node_ok_def intro: rely_J)
next
  case (task_runs j m' p' ts)
  have t: "n_tasks s ! j \<in> set (n_tasks s)" using task_runs(2) by simp
  have eff: "m' = n_manager s \<or> guar (n_manager s) m'"
    and new: "obeys rely guar up (\<lambda>_. True) p' m'"
      "\<forall>t \<in> set ts. obeys rely guar up (\<lambda>_. True) t m'"
    using task_effect [OF task_runs(3)] t assms(2) by (auto simp: node_ok_def)
  then have step: "rely (n_manager s) m'" "loop_rely (n_manager s) m'"
    using assms(2) by (auto simp: node_ok_def intro: rely_refl loop_rely_refl guar_rely guar_loop_rely)
  have "obeys rely guar up (\<lambda>_. True) t m'" if "t \<in> set ((n_tasks s)[j := p'])" for t
    using set_update_subset_insert [THEN subsetD, OF that] assms(2) new(1)
      obeys_stable [OF rely_trans step(1)] unfolding node_ok_def by blast
  moreover have "obeys loop_rely loop_guar up (\<lambda>_. True) p m'" if "n_loop s = Some p" for p
    using that assms(2) obeys_stable [OF loop_rely_trans step(2)] unfolding node_ok_def by blast
  ultimately show ?thesis
    using new(2) step(1) by (auto simp: task_runs(1) node_ok_def intro: rely_J)
qed

lemma reachable_ok: "reachable R order md allowed s \<Longrightarrow> node_ok s"
proof (induction rule: reachable.induct)
  case reach_init
  show ?case using init_J by (simp add: node_ok_def node_init_def)
next
  case (reach_step s s')
  then show ?case using node_ok_step by blast
qed

lemma reachable_J: "reachable R order md allowed s \<Longrightarrow> J (n_manager s)"
  using reachable_ok by (simp add: node_ok_def)

lemma step_rely:
  "reachable R order md allowed s \<Longrightarrow> node_step R order (pm_id md) allowed s s' \<Longrightarrow>
   rely (n_manager s) (n_manager s')"
  using node_ok_step reachable_ok rely_refl by (metis node_ok_def)

end

subsection \<open>The invariant of the shared state\<close>

text \<open>\<open>P\<close> is the set of candidates the application pairs the node with.\<close>

definition paired_id :: "'t peer_candidate set \<Rightarrow> peer_id \<Rightarrow> bool" where
  "paired_id P i = (\<exists>c \<in> P. pc_id c = i)"

definition paired_with :: "'t peer_candidate set \<Rightarrow> peer_id \<Rightarrow> 't pairing_authenticator \<Rightarrow> bool" where
  "paired_with P i a = (\<exists>c \<in> P. pc_id c = i \<and> pc_auth c = a)"

definition candidate_ok :: "'t peer_candidate set \<Rightarrow> peer_id \<Rightarrow> 't peer_candidate \<Rightarrow> bool" where
  "candidate_ok P i c = (pc_id c = i \<and> pm_id (pc_metadata c) = i \<and> paired_with P i (pc_auth c))"

definition peer_ok :: "'t peer_candidate set \<Rightarrow> peer \<Rightarrow> bool" where
  "peer_ok P p = (p_id p = pm_id (p_metadata p) \<and> paired_id P (p_id p))"

fun event_ok :: "'t peer_candidate set \<Rightarrow> p2p_event \<Rightarrow> bool" where
  "event_ok P (PeerDiscovered md) = paired_id P (pm_id md)"
| "event_ok P (PeerConnected p) = peer_ok P p"
| "event_ok P (PeerDisconnected i) = paired_id P i"

text \<open>The peers whose discovery was reported, in order.\<close>

definition discovered_log :: "'t manager \<Rightarrow> peer_id list" where
  "discovered_log m = concat (map (\<lambda>e. case e of PeerDiscovered md \<Rightarrow> [pm_id md] | _ \<Rightarrow> []) (app_channel m))"

definition manager_ok :: "peer_metadata \<Rightarrow> 't peer_candidate set \<Rightarrow> 't manager \<Rightarrow> bool" where
  "manager_ok md P m = (m_id m = pm_id md \<and> m_metadata m = md \<and>
     (\<forall>i c. known_peers m i = Some c \<longrightarrow> candidate_ok P i c) \<and>
     (\<forall>i c. discovered_peers m i = Some c \<longrightarrow>
        candidate_ok P i c \<and> pc_addrs c = {pm_addr (pc_metadata c)} \<and> i \<noteq> pm_id md) \<and>
     (\<forall>i \<in> connected_peers m. paired_id P i) \<and>
     (\<forall>e \<in> set (app_channel m). event_ok P e) \<and>
     (\<forall>e \<in> set (discovery_channel m). e = PresenceRequest \<or> e = PresenceResponse md) \<and>
     distinct (discovered_log m) \<and> set (discovered_log m) \<subseteq> dom (discovered_peers m))"

text \<open>What everybody keeps, and what everybody but the event loop keeps.\<close>

definition extends :: "peer_metadata \<Rightarrow> 't peer_candidate set \<Rightarrow> 't manager \<Rightarrow> 't manager \<Rightarrow> bool" where
  "extends md P m m' = (manager_ok md P m' \<and> discovered_peers m \<subseteq>\<^sub>m discovered_peers m')"

definition keeps :: "peer_metadata \<Rightarrow> 't peer_candidate set \<Rightarrow> 't manager \<Rightarrow> 't manager \<Rightarrow> bool" where
  "keeps md P m m' = (manager_ok md P m' \<and> discovered_peers m' = discovered_peers m \<and>
     discovered_log m' = discovered_log m)"

fun pairs_in :: "'t peer_candidate set \<Rightarrow> 't app_call \<Rightarrow> bool" where
  "pairs_in P (AddKnownPeer c) = (c \<in> P \<and> pc_id c = pm_id (pc_metadata c))"
| "pairs_in P _ = True"

lemma paired_with_id: "paired_with P i a \<Longrightarrow> paired_id P i"
  by (auto simp: paired_with_def paired_id_def)

lemma keeps_refl: "manager_ok md P m \<Longrightarrow> keeps md P m m"
  by (simp add: keeps_def)

lemma keeps_extends: "keeps md P m m' \<Longrightarrow> extends md P m m'"
  by (simp add: keeps_def extends_def)

lemma relations_trans: "transp (extends md P)" "transp (keeps md P)"
  by (auto intro!: transpI simp: extends_def keeps_def intro: map_le_trans)

text \<open>Every atomic operation, under the condition that makes it admissible.\<close>

lemma discovered_log_ops [simp]:
  "discovered_log (send_discovery e m) = discovered_log m"
  "discovered_log (insert_connected i m) = discovered_log m"
  "discovered_log (remove_connected i m) = discovered_log m"
  "discovered_log (insert_known i c m) = discovered_log m"
  "discovered_log (remove_known i m) = discovered_log m"
  "discovered_log (insert_discovered i c m) = discovered_log m"
  "discovered_log (send_app (PeerConnected p) m) = discovered_log m"
  "discovered_log (send_app (PeerDisconnected i) m) = discovered_log m"
  "discovered_log (send_app (PeerDiscovered md) m) = discovered_log m @ [pm_id md]"
  by (simp_all add: discovered_log_def manager_ops)

lemma keeps_ops:
  assumes "manager_ok md P m"
  shows "candidate_ok P i c \<Longrightarrow> keeps md P m (insert_known i c m)"
    and "keeps md P m (remove_known i m)"
    and "paired_id P i \<Longrightarrow> keeps md P m (insert_connected i m)"
    and "keeps md P m (remove_connected i m)"
    and "peer_ok P p \<Longrightarrow> keeps md P m (send_app (PeerConnected p) m)"
    and "paired_id P i \<Longrightarrow> keeps md P m (send_app (PeerDisconnected i) m)"
    and "keeps md P m (send_discovery PresenceRequest m)"
    and "keeps md P m (send_discovery (PresenceResponse (m_metadata m)) m)"
  using assms unfolding keeps_def manager_ok_def discovered_log_ops
  by (auto simp: manager_ops)

lemma extends_ops:
  assumes "manager_ok md P m"
  shows "candidate_ok P i c \<Longrightarrow> pc_addrs c = {pm_addr (pc_metadata c)} \<Longrightarrow> i \<noteq> pm_id md \<Longrightarrow>
      discovered_peers m i = None \<Longrightarrow> extends md P m (insert_discovered i c m)"
    and "paired_id P (pm_id found) \<Longrightarrow> pm_id found \<notin> set (discovered_log m) \<Longrightarrow>
      pm_id found \<in> dom (discovered_peers m) \<Longrightarrow> extends md P m (send_app (PeerDiscovered found) m)"
  using assms unfolding extends_def manager_ok_def discovered_log_ops
  by (auto simp: manager_ops map_le_def)

subsection \<open>Every task keeps the invariant\<close>

lemma extends_ok: "extends md P m m' \<Longrightarrow> manager_ok md P m'"
  by (simp add: extends_def)

lemma keeps_ok: "keeps md P m m' \<Longrightarrow> manager_ok md P m'"
  by (simp add: keeps_def)

lemma manager_ok_candidates:
  assumes "manager_ok md P m"
  shows "known_peers m i = Some c \<Longrightarrow> candidate_ok P i c"
    and "discovered_peers m i = Some c \<Longrightarrow> candidate_ok P i c"
  using assms by (auto simp: manager_ok_def)

text \<open>A handshake only returns and only starts peers that are the candidate.\<close>

definition result_ok :: "'t peer_candidate set \<Rightarrow> (peer, handshake_error) outcome \<Rightarrow> bool" where
  "result_ok P r = (\<forall>p. r = Ok p \<longrightarrow> peer_ok P p)"

lemma obeys_peer_new:
  assumes "candidate_ok P i cand"
  shows "obeys rely guar (paired_id P) (result_ok P) (peer_new t c (pc_metadata cand)) m"
  using assms
  by (auto simp: peer_new_def result_ok_def peer_ok_def candidate_ok_def dest: paired_with_id)

lemma obeys_blocks:
  "obeys rely guar up Q (send_failure c code err) m \<longleftrightarrow> Q (Err err)"
  "obeys rely guar up Q k m \<Longrightarrow> (\<And>e. Q (Err e)) \<Longrightarrow> obeys rely guar up Q (send_or_fail c msg k) m"
  "(\<And>key. obeys rely guar up Q (g key) m) \<Longrightarrow> obeys rely guar up Q (generate_code a g) m"
  "(\<And>msg. obeys rely guar up Q (n msg) m) \<Longrightarrow> (\<And>e. Q (Err e)) \<Longrightarrow>
     obeys rely guar up Q (next_frame c n) m"
  by (auto simp: send_failure_def send_or_fail_def generate_code_def next_frame_def
      split: outcome.split received.split)

lemma peer_ok_id: "peer_ok P p \<Longrightarrow> paired_id P (p_id p)"
  unfolding peer_ok_def by blast

lemma result_ok_Err [simp]: "result_ok P (Err e)"
  by (simp add: result_ok_def)

lemma obeys_connect:
  assumes "candidate_ok P i cand"
  shows "obeys rely guar (paired_id P) (result_ok P) (connect R self_id c cand) m"
  unfolding connect_def
  by (intro obeys_blocks) (auto split: connection.split intro!: obeys_blocks obeys_peer_new [OF assms]
      simp: obeys_blocks(1))

lemma obeys_then:
  assumes "obeys (extends md P) (keeps md P) up Q p m" "manager_ok md P m"
    and "\<And>r m. Q r \<Longrightarrow> manager_ok md P m \<Longrightarrow> obeys (extends md P) (keeps md P) up Q' (f r) m"
  shows "obeys (extends md P) (keeps md P) up Q' (pbind p f) m"
  using assms(1,2) keeps_ok assms(3) by (rule obeys_pbind)

lemma obeys_lookup:
  assumes "manager_ok md P m"
    and "\<And>m. manager_ok md P m \<Longrightarrow> obeys (extends md P) (keeps md P) up Q (k None) m"
    and "\<And>m c. manager_ok md P m \<Longrightarrow> candidate_ok P i c \<Longrightarrow>
      obeys (extends md P) (keeps md P) up Q (k (Some c)) m"
  shows "obeys (extends md P) (keeps md P) up Q (get_peer_candidate i k) m"
proof -
  have "obeys (extends md P) (keeps md P) up Q
      (k (case discovered_peers m1 i of Some p \<Rightarrow> Some p | None \<Rightarrow> known_peers m2 i)) m2"
    if "manager_ok md P m1" "manager_ok md P m2" for m1 m2
    using that assms(2,3)
    by (cases "discovered_peers m1 i"; cases "known_peers m2 i") (auto intro: manager_ok_candidates)
  then show ?thesis
    by (auto simp: get_peer_candidate_def Let_def keeps_refl dest: extends_ok)
qed

lemma obeys_accept:
  assumes "manager_ok md P m"
  shows "obeys (extends md P) (keeps md P) (paired_id P) (result_ok P) (accept R self_id c) m"
  unfolding accept_def
  by (intro obeys_blocks) (auto split: connection.split intro!: obeys_lookup [OF assms] obeys_blocks obeys_peer_new
      simp: obeys_blocks(1))

lemma obeys_try_addrs:
  assumes "candidate_ok P i cand" "manager_ok md P m"
  shows "obeys (extends md P) (keeps md P) (paired_id P) (result_ok P) (try_addrs R self_id i cand addrs) m"
  using assms(2)
proof (induction addrs)
  case (Cons a addrs)
  have pid: "paired_id P i"
    using assms(1) by (auto simp: candidate_ok_def dest: paired_with_id)
  have "obeys (extends md P) (keeps md P) (paired_id P) (result_ok P)
      (pbind (connect R self_id c cand) (\<lambda>r. case r of
           Ok p \<Rightarrow> Atomic (insert_connected i) (\<lambda>_. Done (Ok p)) | Err e \<Rightarrow> Done (Err e) | Panic \<Rightarrow> Crash)) m" for c
    by (rule obeys_then [OF obeys_connect [OF assms(1)] Cons.prems])
      (auto split: outcome.split intro: keeps_ops(3) pid extends_ok)
  with Cons show ?case by (auto split: option.split)
qed simp

lemma obeys_app_task:
  assumes "pairs_in P call" "manager_ok md P m"
  shows "obeys (extends md P) (keeps md P) (paired_id P) (\<lambda>_. True) (app_task R order self_id call) m"
proof (cases call)
  case (AddKnownPeer c)
  with assms(1) have "candidate_ok P (pc_id c) c"
    by (auto simp: candidate_ok_def paired_with_def)
  then show ?thesis
    by (auto simp: AddKnownPeer add_known_peer_def intro: keeps_ops(1) extends_ok)
next
  case RequestPresence
  show ?thesis by (auto simp: RequestPresence request_presence_def intro: keeps_ops(7) extends_ok)
next
  case (IsDiscovered i)
  show ?thesis by (auto simp: IsDiscovered is_discovered_def intro: keeps_refl extends_ok)
next
  case (IsConnected i)
  show ?thesis by (auto simp: IsConnected is_connected_def intro: keeps_refl extends_ok)
next
  case (ConnectToPeer i)
  have "obeys (extends md P) (keeps md P) (paired_id P) (result_ok P) (connect_to_peer R order self_id i) m"
    unfolding connect_to_peer_def
    by (auto split: option.split intro: keeps_refl extends_ok
        intro!: obeys_try_addrs dest: extends_ok manager_ok_candidates)
  then show ?thesis
    unfolding ConnectToPeer app_task.simps
    by (rule obeys_then [OF _ assms(2)]) simp_all
qed

lemma obeys_peer_disconnected:
  assumes "paired_id P i"
  shows "obeys (extends md P) (keeps md P) up (\<lambda>_. True) (peer_disconnected i) m"
  using assms by (auto simp: peer_disconnected_def intro: keeps_ops(4,6) extends_ok)

lemma obeys_accept_task:
  assumes "manager_ok md P m"
  shows "obeys (extends md P) (keeps md P) (paired_id P) (\<lambda>_. True) (accept_task R self_id c) m"
  unfolding accept_task_def
  by (rule obeys_then [OF obeys_accept [OF assms] assms])
    (auto split: outcome.split simp: handle_new_connection_def result_ok_def
      intro: keeps_ops(3,5) extends_ok peer_ok_id)

text \<open>
  The event loop: nobody else discovers peers, so what it saw of the discovered peers still holds
  when it records a new one.
\<close>

lemma obeys_record_peer:
  assumes "manager_ok md P m" "discovered_peers m i = None" "candidate_ok P i c"
    and "pc_addrs c = {pm_addr (pc_metadata c)}" "i \<noteq> pm_id md"
  shows "obeys (keeps md P) (extends md P) up (\<lambda>_. True)
    (Atomic (insert_discovered i c) (\<lambda>_. Atomic (insert_known i c) (\<lambda>_.
     Atomic (send_app (PeerDiscovered (pc_metadata c))) (\<lambda>_. Done ())))) m"
proof -
  have i: "pm_id (pc_metadata c) = i" "paired_id P i"
    using assms(3) by (auto simp: candidate_ok_def dest: paired_with_id)
  have first: "extends md P m1 (insert_discovered i c m1)" "i \<notin> set (discovered_log m1)"
    if "keeps md P m m1" for m1
    using that assms extends_ops(1) [OF keeps_ok [OF that]] by (auto simp: keeps_def manager_ok_def)
  have second: "extends md P m2 (insert_known i c m2)" if "keeps md P m1 m2" for m1 m2
    using keeps_ops(1) [OF keeps_ok [OF that] assms(3)] by (rule keeps_extends)
  have third: "extends md P m3 (send_app (PeerDiscovered (pc_metadata c)) m3)"
    if "keeps md P m m1" "keeps md P (insert_discovered i c m1) m2" "keeps md P (insert_known i c m2) m3"
    for m1 m2 m3
  proof (rule extends_ops(2) [OF keeps_ok [OF that(3)]])
    have "discovered_peers m3 = (discovered_peers m1)(i \<mapsto> c)" "discovered_log m3 = discovered_log m1"
      using that(2,3) by (simp_all add: keeps_def) (simp add: insert_known_def insert_discovered_def)
    then show "pm_id (pc_metadata c) \<notin> set (discovered_log m3)"
      "pm_id (pc_metadata c) \<in> dom (discovered_peers m3)"
      using first(2) [OF that(1)] by (auto simp: i(1))
  qed (simp add: i)
  show ?thesis using first(1) second third by auto
qed

lemma obeys_peer_discovered:
  assumes "pm_id found \<noteq> pm_id md"
  shows "obeys (keeps md P) (extends md P) up (\<lambda>_. True) (handle_peer_discovered found) m"
proof -
  have refl: "extends md P m2 m2" if "keeps md P m1 m2" for m1 m2
    using that by (intro keeps_extends keeps_refl keeps_ok)
  have removed: "extends md P m2 (remove_known i m2)" if "keeps md P m1 m2" for m1 m2 i
    using keeps_ops(2) [OF keeps_ok [OF that]] by (rule keeps_extends)
  have known: "obeys (keeps md P) (extends md P) up (\<lambda>_. True)
      (let c = \<lparr>pc_id = pm_id found, pc_metadata = found, pc_addrs = {pm_addr found}, pc_auth = pc_auth k\<rparr> in
       Atomic (insert_discovered (pm_id found) c) (\<lambda>_. Atomic (insert_known (pm_id found) c) (\<lambda>_.
       Atomic (send_app (PeerDiscovered (pc_metadata c))) (\<lambda>_. Done ())))) (remove_known (pm_id found) m2)"
    if "keeps md P m1 m2" "discovered_peers m1 (pm_id found) = None" "known_peers m2 (pm_id found) = Some k"
    for m1 m2 k
    unfolding Let_def
  proof (rule obeys_record_peer)
    show "manager_ok md P (remove_known (pm_id found) m2)"
      using extends_ok [OF removed [OF that(1)]] .
    show "discovered_peers (remove_known (pm_id found) m2) (pm_id found) = None"
      using that(1,2) by (simp add: keeps_def remove_known_def)
    show "candidate_ok P (pm_id found) \<lparr>pc_id = pm_id found, pc_metadata = found,
        pc_addrs = {pm_addr found}, pc_auth = pc_auth k\<rparr>"
      using manager_ok_candidates(1) [OF keeps_ok [OF that(1)] that(3)] by (simp add: candidate_ok_def)
  qed (simp_all add: assms)
  show ?thesis
    unfolding handle_peer_discovered_def Let_def [of "pm_id found"]
    using refl removed known by (auto split: option.split simp del: Let_def)
qed

lemma obeys_loop_turn:
  assumes "p2p_event_loop R (pm_id md) e = Continue p ts" "manager_ok md P m"
  shows "obeys (keeps md P) (extends md P) (paired_id P) (\<lambda>_. True) p m \<and>
    (\<forall>t \<in> set ts. obeys (extends md P) (keeps md P) (paired_id P) (\<lambda>_. True) t m)"
  using assms(1)
proof (cases e rule: loop_event_cases)
  case (Found found a)
  with assms(1) show ?thesis
    by (auto split: if_split_asm intro!: obeys_peer_discovered)
next
  case (Asked a)
  with assms(1) show ?thesis
    by (auto simp: handle_presence_request_def intro!: keeps_extends keeps_ops(8) dest: keeps_ok)
next
  case (Took c a)
  with assms show ?thesis by (auto intro: obeys_accept_task)
qed auto

lemma manager_ok_init: "manager_ok md P (n_manager (node_init md))"
  by (simp add: node_init_def manager_ok_def discovered_log_def)

interpretation paired_node: shared_manager "manager_ok md P" "extends md P" "keeps md P" "keeps md P"
  "extends md P" "paired_id P" R order md "pairs_in P"
  for md :: peer_metadata and P :: "'t peer_candidate set" and R order
proof
  show "transp (extends md P)" "transp (keeps md P)" by (rule relations_trans)+
  show "obeys (keeps md P) (extends md P) (paired_id P) (\<lambda>_. True) p m \<and>
      (\<forall>t \<in> set ts. obeys (extends md P) (keeps md P) (paired_id P) (\<lambda>_. True) t m)"
    if "p2p_event_loop R (pm_id md) e = Continue p ts" "manager_ok md P m" for e p ts m
    using that by (rule obeys_loop_turn)
qed (auto intro: keeps_refl keeps_extends extends_ok manager_ok_init obeys_app_task
    obeys_peer_disconnected)

subsection \<open>Schedules\<close>

text \<open>To reach a particular state: the answers of the environment and the order of the steps as data.\<close>

datatype answer =
    NoAnswer
  | TcpAnswer "conn option"
  | GenAnswer "(rstring, pairing_error) outcome"
  | SendAnswer "(unit, parse_error) outcome"
  | NextAnswer received

fun perform :: "'t manager \<Rightarrow> ('t, 'r) prog \<Rightarrow> answer \<Rightarrow> ('t manager \<times> ('t, 'r) prog \<times> ('t, unit) prog list) option" where
  "perform m (Atomic u k) NoAnswer = Some (u m, k m, [])"
| "perform m (Tcp a k) (TcpAnswer x) = Some (m, k x, [])"
| "perform m (Gen b k) (GenAnswer x) = Some (m, k x, [])"
| "perform m (Send c msg k) (SendAnswer x) = Some (m, k x, [])"
| "perform m (Next c k) (NextAnswer x) = Some (m, k x, [])"
| "perform m (Spawn c i p) NoAnswer = Some (m, p, [peer_disconnected i])"
| "perform m _ _ = None"

datatype 't move = Call "'t app_call" | Event loop_event | LoopRuns answer | TaskRuns nat answer

fun play ::
    "ring_api \<Rightarrow> (socket_addr set \<Rightarrow> socket_addr list) \<Rightarrow> peer_id \<Rightarrow> 't node \<Rightarrow> 't move \<Rightarrow> 't node option" where
  "play R order self_id s (Call c) = Some (s\<lparr>n_tasks := n_tasks s @ [app_task R order self_id c]\<rparr>)"
| "play R order self_id s (Event e) =
     (case n_loop s of
        Some (Done _) \<Rightarrow> (case p2p_event_loop R self_id e of
            Continue p ts \<Rightarrow> Some (s\<lparr>n_loop := Some p, n_tasks := n_tasks s @ ts\<rparr>)
          | Break \<Rightarrow> Some (s\<lparr>n_loop := None\<rparr>))
      | _ \<Rightarrow> None)"
| "play R order self_id s (LoopRuns x) =
     (case n_loop s of None \<Rightarrow> None | Some p \<Rightarrow>
      (case perform (n_manager s) p x of None \<Rightarrow> None | Some (m', p', ts) \<Rightarrow>
         Some (s\<lparr>n_manager := m', n_loop := Some p', n_tasks := n_tasks s @ ts\<rparr>)))"
| "play R order self_id s (TaskRuns j x) =
     (if j < length (n_tasks s) then
       (case perform (n_manager s) (n_tasks s ! j) x of None \<Rightarrow> None | Some (m', p', ts) \<Rightarrow>
         Some (s\<lparr>n_manager := m', n_tasks := (n_tasks s)[j := p'] @ ts\<rparr>))
      else None)"

fun play_all ::
    "ring_api \<Rightarrow> (socket_addr set \<Rightarrow> socket_addr list) \<Rightarrow> peer_id \<Rightarrow> 't move list \<Rightarrow> 't node \<Rightarrow> 't node option" where
  "play_all R order self_id [] s = Some s"
| "play_all R order self_id (x # xs) s =
     (case play R order self_id s x of None \<Rightarrow> None | Some s' \<Rightarrow> play_all R order self_id xs s')"

fun move_allowed :: "('t app_call \<Rightarrow> bool) \<Rightarrow> 't move \<Rightarrow> bool" where
  "move_allowed allowed (Call c) = allowed c"
| "move_allowed allowed _ = True"

lemma perform_effect: "perform m p x = Some (m', p', ts) \<Longrightarrow> effect m p m' p' ts"
  by (cases "(m, p, x)" rule: perform.cases) (auto intro: effect.intros)

lemma play_step:
  assumes "play R order self_id s x = Some s'" "move_allowed allowed x"
  shows "node_step R order self_id allowed s s'"
proof (cases x)
  case (Call c)
  with assms show ?thesis by (auto intro: node_step.intros)
next
  case (Event e)
  with assms show ?thesis
    by (auto intro: node_step.intros split: option.split_asm prog.split_asm loop_turn.split_asm)
next
  case (LoopRuns y)
  with assms show ?thesis
    by (auto intro!: node_step.loop_runs perform_effect split: option.split_asm)
next
  case (TaskRuns j y)
  with assms show ?thesis
    by (auto intro!: node_step.task_runs perform_effect split: option.split_asm if_split_asm)
qed

lemma play_all_reachable:
  assumes "play_all R order (pm_id md) xs s = Some s'" "list_all (move_allowed allowed) xs"
    and "reachable R order md allowed s"
  shows "reachable R order md allowed s'"
  using assms
proof (induction xs arbitrary: s)
  case (Cons x xs)
  then obtain s1 where s1: "play R order (pm_id md) s x = Some s1" "play_all R order (pm_id md) xs s1 = Some s'"
    by (auto split: option.split_asm)
  have "reachable R order md allowed s1"
    using Cons.prems play_step [OF s1(1)] by (auto intro: reach_step)
  with Cons.IH s1(2) Cons.prems(2) show ?case by simp
qed simp

subsection \<open>The properties\<close>

text \<open>
  C2. Only paired peers, in every interleaving of the event loop, the application's calls, handshakes
  and disconnections, whatever the network and the peers do: every known or discovered candidate is
  filed under its own identifier and carries a secret the application paired that identifier with, a
  discovered candidate has exactly the announced address and is not the node itself, only paired
  peers are connected or reported to the application, every reported connection is to the peer it
  names, a peer's discovery is reported at most once and only after it was recorded, and the node
  only ever sends presence requests and its own metadata.
\<close>

theorem only_paired_peers:
  assumes "reachable R order md (pairs_in P) s"
  shows "manager_ok md P (n_manager s)"
  using assms by (rule paired_node.reachable_J)

definition reached_moves :: "totp_state move list" where
  "reached_moves = [Call (AddKnownPeer test_candidate), TaskRuns 0 NoAnswer,
     Event (DiscoveryRecv (Some (PresenceResponse test_metadata, V4 LOCALHOST 5001))),
     LoopRuns NoAnswer, LoopRuns NoAnswer, LoopRuns NoAnswer, LoopRuns NoAnswer, LoopRuns NoAnswer,
     LoopRuns NoAnswer]"

definition host_metadata :: peer_metadata where
  "host_metadata = test_metadata\<lparr>pm_id := peer_id_default\<rparr>"

lemma test_ids: "pm_id test_metadata = test_id" "pm_id host_metadata = peer_id_default"
  "peer_id_default \<noteq> test_id" "pc_id test_candidate = test_id" "pc_metadata test_candidate = test_metadata"
  by (simp_all add: test_metadata_def host_metadata_def test_candidate_def candidate_new_def
      peer_id_default_def test_id_def lit_def)

theorem only_paired_peers_witness:
  "\<exists>s. reachable reference_ring (\<lambda>_. []) host_metadata (pairs_in {test_candidate}) s \<and>
     discovered_peers (n_manager s) test_id \<noteq> None \<and> app_channel (n_manager s) = [PeerDiscovered test_metadata] \<and>
     manager_ok host_metadata {test_candidate} (n_manager s)"
proof -
  have "\<exists>s. play_all reference_ring (\<lambda>_. []) peer_id_default reached_moves (node_init host_metadata) = Some s \<and>
      discovered_peers (n_manager s) test_id \<noteq> None \<and> app_channel (n_manager s) = [PeerDiscovered test_metadata]"
    by (simp add: reached_moves_def node_init_def test_ids add_known_peer_def handle_peer_discovered_def
        manager_ops Let_def)
  then obtain s where s: "play_all reference_ring (\<lambda>_. []) (pm_id host_metadata) reached_moves
        (node_init host_metadata) = Some s"
      "discovered_peers (n_manager s) test_id \<noteq> None" "app_channel (n_manager s) = [PeerDiscovered test_metadata]"
    by (auto simp: test_ids)
  have "reachable reference_ring (\<lambda>_. []) host_metadata (pairs_in {test_candidate}) s"
    by (rule play_all_reachable [OF s(1) _ reach_init]) (simp add: reached_moves_def test_ids)
  with only_paired_peers [OF this] s(2,3) show ?thesis by blast
qed

text \<open>
  C20. A discovered peer stays discovered, with the address and the secret it was discovered with, in
  every interleaving: no step of a reachable node removes or changes an entry.
\<close>

theorem discovered_peers_stay:
  assumes "reachable R order md (pairs_in P) s" and "node_step R order (pm_id md) (pairs_in P) s s'"
  shows "discovered_peers (n_manager s) \<subseteq>\<^sub>m discovered_peers (n_manager s')"
  using paired_node.step_rely [OF assms] by (simp add: extends_def)

text \<open>A node that has discovered a peer records that it was paired with it again.\<close>

theorem discovered_peers_stay_witness:
  "\<exists>s s' c. reachable reference_ring (\<lambda>_. []) host_metadata (pairs_in {test_candidate}) s \<and>
     node_step reference_ring (\<lambda>_. []) (pm_id host_metadata) (pairs_in {test_candidate}) s s' \<and>
     known_peers (n_manager s') \<noteq> known_peers (n_manager s) \<and> pc_addrs c = {pm_addr test_metadata} \<and>
     discovered_peers (n_manager s) test_id = Some c \<and> discovered_peers (n_manager s') test_id = Some c"
proof -
  have "\<exists>s s' c. play_all reference_ring (\<lambda>_. []) peer_id_default (reached_moves @ [Call (AddKnownPeer test_candidate)])
        (node_init host_metadata) = Some s \<and> play reference_ring (\<lambda>_. []) peer_id_default s (TaskRuns 1 NoAnswer) = Some s' \<and>
      known_peers (n_manager s') \<noteq> known_peers (n_manager s) \<and> pc_addrs c = {pm_addr test_metadata} \<and>
      discovered_peers (n_manager s) test_id = Some c"
    by (simp add: reached_moves_def node_init_def test_ids add_known_peer_def handle_peer_discovered_def
        manager_ops Let_def fun_eq_iff, simp add: test_candidate_def candidate_new_def)
  then obtain s s' :: "totp_state node" and c where s:
      "play_all reference_ring (\<lambda>_. []) (pm_id host_metadata) (reached_moves @ [Call (AddKnownPeer test_candidate)])
        (node_init host_metadata) = Some s"
      "play reference_ring (\<lambda>_. []) (pm_id host_metadata) s (TaskRuns 1 NoAnswer) = Some s'"
      "known_peers (n_manager s') \<noteq> known_peers (n_manager s)" "pc_addrs c = {pm_addr test_metadata}"
      "discovered_peers (n_manager s) test_id = Some c"
    by (auto simp: test_ids)
  have reached: "reachable reference_ring (\<lambda>_. []) host_metadata (pairs_in {test_candidate}) s"
    by (rule play_all_reachable [OF s(1) _ reach_init]) (simp add: reached_moves_def test_ids)
  have step: "node_step reference_ring (\<lambda>_. []) (pm_id host_metadata) (pairs_in {test_candidate}) s s'"
    using s(2) by (rule play_step) simp
  have "discovered_peers (n_manager s') test_id = Some c"
    using discovered_peers_stay [OF reached step] s(5) by (auto simp: map_le_def dom_def)
  with reached step s(3-5) show ?thesis by blast
qed

definition stale_moves :: "ring_api \<Rightarrow> peer_id \<Rightarrow> 't peer_candidate \<Rightarrow> rstring \<Rightarrow> 't move list" where
  "stale_moves R self_id c key = [Call (AddKnownPeer c), TaskRuns 0 NoAnswer,
     Event (Accepted (Ok (0, V4 LOCALHOST 4000))),
     TaskRuns 1 (NextAnswer (Frame (Ok (Request (pc_id c) (sign R key (id_bytes (pc_id c))))))),
     TaskRuns 1 NoAnswer, TaskRuns 1 NoAnswer, TaskRuns 1 (GenAnswer (Ok key)), TaskRuns 1 (SendAnswer (Ok ())),
     TaskRuns 1 (NextAnswer (Frame (Ok CompleteRequest))), TaskRuns 1 (SendAnswer (Ok ())), TaskRuns 1 NoAnswer,
     TaskRuns 2 NoAnswer, TaskRuns 2 NoAnswer,
     TaskRuns 1 NoAnswer, TaskRuns 1 NoAnswer]"

text \<open>
  C31. Connections and disconnections race: the transport loop of an accepted connection starts before
  the connection is entered, so if the remote side closes early, the application is told of the
  disconnection first and of the connection afterwards, and the peer stays in the connected set with
  no task left that would remove it; from then on, connecting to it is refused as a duplicate.
\<close>

theorem stale_connection:
  assumes "ring_crate R" and "c \<in> P" and "pc_id c = pm_id (pc_metadata c)"
  shows "\<exists>s p. reachable R order md (pairs_in P) s \<and> list_all ended (n_tasks s) \<and> n_loop s = Some (Done ()) \<and>
    pc_id c \<in> connected_peers (n_manager s) \<and> p_id p = pc_id c \<and>
    app_channel (n_manager s) = [PeerDisconnected (pc_id c), PeerConnected p] \<and>
    fst (exec (connect_to_peer R order (pm_id md) (pc_id c)) (n_manager s)) = Done (Err HsDup)"
proof -
  define key where "key = lit ''00000000''"
  have ok: "verify R key (id_bytes (pm_id (pc_metadata c))) (sign R key (id_bytes (pm_id (pc_metadata c)))) = Ok ()"
    using assms(1) by (rule ring_crate.verify_sign)
  have "\<exists>s p. play_all R order (pm_id md) (stale_moves R (pm_id md) c key) (node_init md) = Some s \<and>
      list_all ended (n_tasks s) \<and> n_loop s = Some (Done ()) \<and>
      pc_id c \<in> connected_peers (n_manager s) \<and> p_id p = pc_id c \<and>
      app_channel (n_manager s) = [PeerDisconnected (pc_id c), PeerConnected p] \<and>
      fst (exec (connect_to_peer R order (pm_id md) (pc_id c)) (n_manager s)) = Done (Err HsDup)"
    by (simp add: stale_moves_def node_init_def assms(3) add_known_peer_def accept_task_def accept_def
        next_frame_def get_peer_candidate_def generate_code_def ok send_or_fail_def peer_new_def
        peer_disconnected_def handle_new_connection_def manager_ops connect_to_peer_def Let_def)
  moreover have "list_all (move_allowed (pairs_in P)) (stale_moves R (pm_id md) c key)"
    using assms(2,3) by (simp add: stale_moves_def)
  ultimately show ?thesis
    using play_all_reachable [OF _ _ reach_init] by blast
qed

theorem stale_connection_witness:
  "\<exists>s. reachable reference_ring (\<lambda>_. []) host_metadata (pairs_in {test_candidate}) s \<and>
     test_id \<in> connected_peers (n_manager s) \<and> list_all ended (n_tasks s)"
  using stale_connection [OF reference_ring.ring_crate_axioms, of test_candidate "{test_candidate}"]
  by (simp add: test_ids) blast

definition refused_moves :: "'t peer_candidate \<Rightarrow> peer_metadata \<Rightarrow> bytes \<Rightarrow> 't move list" where
  "refused_moves c found tag = [Call (AddKnownPeer c), TaskRuns 0 NoAnswer,
     Event (Accepted (Ok (0, V4 LOCALHOST 4000))), TaskRuns 1 (NextAnswer (Frame (Ok (Request (pc_id c) tag)))),
     Event (DiscoveryRecv (Some (PresenceResponse found, pm_addr found))),
     LoopRuns NoAnswer, LoopRuns NoAnswer, LoopRuns NoAnswer,
     TaskRuns 1 NoAnswer, TaskRuns 1 NoAnswer]"

text \<open>
  C32. Recording a discovery races with an incoming handshake: the known entry is removed before the
  discovered one is inserted, so a host that looks the peer up in between answers a paired peer's
  request as that of an unknown peer.
\<close>

theorem paired_peer_refused:
  fixes found :: peer_metadata
  assumes "c \<in> P" and "pc_id c = pm_id (pc_metadata c)" and "pm_id found = pc_id c" and "pc_id c \<noteq> pm_id md"
  shows "\<exists>s k. play_all R order (pm_id md) (refused_moves c found tag) (node_init md) = Some s \<and>
    reachable R order md (pairs_in P) s \<and>
    n_tasks s ! 1 = Send 0 (Failure NOT_FOUND_ERR) k \<and> (\<forall>r. r \<noteq> Panic \<longrightarrow> k r = Done ())"
proof -
  have "\<exists>s k. play_all R order (pm_id md) (refused_moves c found tag) (node_init md) = Some s \<and>
      n_tasks s ! 1 = Send 0 (Failure NOT_FOUND_ERR) k \<and> (\<forall>r. r \<noteq> Panic \<longrightarrow> k r = Done ())"
    using assms(2-4)
    by (simp add: refused_moves_def node_init_def add_known_peer_def accept_task_def accept_def
        next_frame_def get_peer_candidate_def send_failure_def handle_peer_discovered_def manager_ops Let_def
        split: outcome.split)
  moreover have "list_all (move_allowed (pairs_in P)) (refused_moves c found tag)"
    using assms(1,2) by (simp add: refused_moves_def)
  ultimately show ?thesis
    using play_all_reachable [OF _ _ reach_init] by blast
qed

theorem paired_peer_refused_witness:
  "\<exists>s k. reachable reference_ring (\<lambda>_. []) host_metadata (pairs_in {test_candidate}) s \<and>
     n_tasks s ! 1 = Send 0 (Failure NOT_FOUND_ERR) k"
  using paired_peer_refused [of test_candidate "{test_candidate}" test_metadata host_metadata reference_ring "\<lambda>_. []"
      test_tag]
  by (auto simp: test_ids test_ids(3) [symmetric])

end
