(* ===== verification/Typing.thy ===== *)
theory Typing
  imports System
begin

text \<open>
  Well-formedness of everything a running node sends. A tree of effects is typed when every message it
  can ever send fits the documented layout; typing is preserved by every effect, whatever the
  answers, so it holds of all tasks of a reachable node, and the encoders never panic on what a
  node with a protocol identifier hands them.
\<close>

subsection \<open>Typed trees\<close>

primrec typed :: "(connection \<Rightarrow> bool) \<Rightarrow> ('t, 'r) prog \<Rightarrow> bool" where
  "typed ok (Done r) = True"
| "typed ok Crash = True"
| "typed ok (Atomic u k) = (\<forall>m. typed ok (k m))"
| "typed ok (Tcp a k) = (\<forall>x. typed ok (k x))"
| "typed ok (Gen a k) = (\<forall>x. typed ok (k x))"
| "typed ok (Send c msg k) = (ok msg \<and> (\<forall>x. typed ok (k x)))"
| "typed ok (Next c k) = (\<forall>x. typed ok (k x))"
| "typed ok (Spawn c i p) = typed ok p"

lemma typed_pbind: "typed ok p \<Longrightarrow> (\<And>r. typed ok (f r)) \<Longrightarrow> typed ok (pbind p f)"
  by (induction p) auto

text \<open>Preservation: an effect of a typed task leaves a typed task, and so are the tasks it spawns.\<close>

lemma typed_peer_disconnected [simp]: "typed ok (peer_disconnected i)"
  by (simp add: peer_disconnected_def)

lemma typed_effect: "effect m p m' p' ts \<Longrightarrow> typed ok p \<Longrightarrow> typed ok p' \<and> (\<forall>t \<in> set ts. typed ok t)"
  by (induction rule: effect.induct) auto

subsection \<open>The program is typed\<close>

lemma typed_methods [simp]:
  "typed ok (add_known_peer c)" "typed ok request_presence" "typed ok (is_discovered i)" "typed ok (is_connected i)"
  "typed ok handle_presence_request" "typed ok (handle_new_connection p)" "typed ok (handle_peer_discovered md)"
  by (simp_all add: manager_methods Let_def split: option.split)

text \<open>The building blocks of the handshake; failure messages fit whatever their code.\<close>

lemma typed_blocks:
  "typed (connection_ok P) (send_failure c code err)"
  "connection_ok P msg \<Longrightarrow> typed (connection_ok P) k \<Longrightarrow> typed (connection_ok P) (send_or_fail c msg k)"
  "(\<And>key. typed (connection_ok P) (g key)) \<Longrightarrow> typed (connection_ok P) (generate_code a g)"
  "(\<And>msg. typed (connection_ok P) (n msg)) \<Longrightarrow> typed (connection_ok P) (next_frame c n)"
  "typed (connection_ok P) (peer_new t c md)"
  "(\<And>cand. typed (connection_ok P) (l cand)) \<Longrightarrow> typed (connection_ok P) (get_peer_candidate i l)"
  by (auto simp: send_failure_def send_or_fail_def generate_code_def next_frame_def peer_new_def
      get_peer_candidate_def Let_def split: outcome.split received.split)

context ring_crate
begin

lemma typed_handshake:
  assumes "peer_id_ok P self_id"
  shows "typed (connection_ok P) (connect R self_id c cand)" "typed (connection_ok P) (accept R self_id c)"
  unfolding connect_def accept_def
  by (auto intro!: typed_blocks simp: assms typed_blocks split: connection.split option.split)

lemma typed_try_addrs:
  "peer_id_ok P self_id \<Longrightarrow> typed (connection_ok P) (try_addrs R self_id i cand addrs)"
  by (induction addrs) (auto intro!: typed_pbind typed_handshake split: option.split outcome.split)

lemma typed_app_task: "peer_id_ok P self_id \<Longrightarrow> typed (connection_ok P) (app_task R order self_id call)"
  by (cases call) (auto intro!: typed_pbind typed_try_addrs simp: connect_to_peer_def split: option.split)

lemma typed_loop_turn:
  assumes "peer_id_ok P self_id" "p2p_event_loop R self_id e = Continue p ts"
  shows "typed (connection_ok P) p \<and> (\<forall>t \<in> set ts. typed (connection_ok P) t)"
  using assms
  by (cases e rule: loop_event_cases)
    (auto simp: accept_task_def intro!: typed_pbind typed_handshake split: outcome.split if_split_asm)

lemma reachable_typed:
  assumes "reachable R order md allowed s" "peer_id_ok P (pm_id md)"
  shows "(\<forall>t \<in> set (n_tasks s). typed (connection_ok P) t) \<and>
    (\<forall>p. n_loop s = Some p \<longrightarrow> typed (connection_ok P) p)"
  using assms(1)
proof (induction rule: reachable.induct)
  case reach_init
  show ?case by (simp add: node_init_def)
next
  case (reach_step s s')
  from reach_step.hyps(2) show ?case
  proof (cases rule: node_step.cases)
    case (app_calls c)
    with reach_step.IH typed_app_task [OF assms(2)] show ?thesis by auto
  next
    case (loop_event e p ts)
    with reach_step.IH typed_loop_turn [OF assms(2) loop_event(3)] show ?thesis by auto
  next
    case (loop_end e)
    with reach_step.IH show ?thesis by auto
  next
    case (loop_runs p m' p' ts)
    with reach_step.IH typed_effect [OF loop_runs(3)] show ?thesis by auto
  next
    case (task_runs j m' p' ts)
    then have "typed (connection_ok P) (n_tasks s ! j)" using reach_step.IH by simp
    with typed_effect [OF task_runs(3)] have new: "typed (connection_ok P) p'" "\<forall>t \<in> set ts. typed (connection_ok P) t"
      by blast+
    have "typed (connection_ok P) t" if "t \<in> set ((n_tasks s)[j := p'])" for t
      using set_update_subset_insert [THEN subsetD, OF that] reach_step.IH new(1) by blast
    with task_runs reach_step.IH new(2) show ?thesis by auto
  qed
qed

end

subsection \<open>The property\<close>

text \<open>
  C12. Everything a running node sends fits its wire format: if the node's identifier is one the
  protocol can carry and its presence response fits the layout, then in every state the node can
  get into, whatever the network, the peers and the scheduler do, every message that a task is about to send
  or can ever send is well formed, and the encoders turn it, and every message waiting for
  the discovery task, into its frame without an error or a panic.
\<close>

theorem sent_messages_well_formed:
  assumes "bytes_crate P" and "ring_crate R" and "peer_id_ok P (pm_id md)"
    and "discovery_ok P (PresenceResponse md)" and "reachable R order md (pairs_in Q) s"
  shows "(\<forall>t \<in> set (n_tasks s). typed (connection_ok P) t) \<and>
    (\<forall>c msg k. Send c msg k \<in> set (n_tasks s) \<longrightarrow>
      connection_encode P msg dst = (Ok (), dst @ frame_wire Connect (connection_payload msg))) \<and>
    (\<forall>e \<in> set (discovery_channel (n_manager s)).
      discovery_encode P e dst = (Ok (), dst @ frame_wire Discovery (discovery_payload e)))"
proof -
  have tasks: "\<forall>t \<in> set (n_tasks s). typed (connection_ok P) t"
    using ring_crate.reachable_typed [OF assms(2,5,3)] by blast
  have "connection_ok P msg" if "Send c msg k \<in> set (n_tasks s)" for c msg k
    using tasks that by fastforce
  moreover have "discovery_ok P e" if "e \<in> set (discovery_channel (n_manager s))" for e
    using paired_node.reachable_J [OF assms(5)] that assms(4) unfolding manager_ok_def by auto
  ultimately show ?thesis
    using tasks bytes_crate.connection_encode_wire [OF assms(1)] bytes_crate.discovery_encode_wire [OF assms(1)]
    by blast
qed

definition sending_moves :: "totp_state move list" where
  "sending_moves = [Event (DiscoveryRecv (Some (PresenceRequest, V4 LOCALHOST 4000))), LoopRuns NoAnswer,
     Event (Accepted (Ok (0, V4 LOCALHOST 4000))), TaskRuns 0 (NextAnswer TimedOut)]"

theorem sent_messages_well_formed_witness:
  "\<exists>s c msg k. reachable reference_ring (\<lambda>_. []) test_metadata (pairs_in ({} :: totp_state peer_candidate set)) s \<and>
     Send c msg k \<in> set (n_tasks s) \<and>
     connection_encode (list_platform True (\<lambda>_. False)) msg [] = (Ok (), frame_wire Connect (connection_payload msg)) \<and>
     discovery_channel (n_manager s) = [PresenceResponse test_metadata]"
proof -
  have "\<exists>s c msg k. play_all reference_ring (\<lambda>_. []) (pm_id test_metadata) sending_moves (node_init test_metadata) = Some s \<and>
      Send c msg k \<in> set (n_tasks s) \<and> discovery_channel (n_manager s) = [PresenceResponse test_metadata]"
    by (simp add: sending_moves_def node_init_def handle_presence_request_def accept_task_def accept_def
        next_frame_def send_failure_def manager_ops)
  then obtain s c msg k where s: "play_all reference_ring (\<lambda>_. []) (pm_id test_metadata) sending_moves
        (node_init test_metadata) = Some s"
      "Send c msg k \<in> set (n_tasks s)" "discovery_channel (n_manager s) = [PresenceResponse test_metadata]" by blast
  have reach: "reachable reference_ring (\<lambda>_. []) test_metadata (pairs_in {}) s"
    by (rule play_all_reachable [OF s(1) _ reach_init]) (simp add: sending_moves_def)
  have id: "peer_id_ok (list_platform True (\<lambda>_. False)) (pm_id test_metadata)" by (simp add: test_ids)
  from sent_messages_well_formed [OF list_buffers.bytes_crate_axioms reference_ring.ring_crate_axioms id
      test_response_ok reach, of "[]"] s reach show ?thesis by (metis append_Nil)
qed

end
