(* ===== verification/Core.thy ===== *)
theory Core
  imports Discovery
begin

text \<open>
  The core of the application (\<^verbatim>\<open>core/src\<close>): the configuration on disk (\<^verbatim>\<open>conf.rs\<close>), the secrets in the
  system's keyring (\<^verbatim>\<open>secret.rs\<close>), the local network (\<^verbatim>\<open>lan.rs\<close>), the platform (\<^verbatim>\<open>plat.rs\<close>) and the node
  that puts them together with the p2p manager (\<open>Node::init\<close> of \<^verbatim>\<open>node.rs\<close>). The crates \<^verbatim>\<open>keyring\<close>, \<^verbatim>\<open>serde_json\<close>,
  \<^verbatim>\<open>if_watch\<close> and \<^verbatim>\<open>rcgen\<close> are parameters.
\<close>

text \<open>A call whose error is converted by \<open>?\<close>.\<close>

definition smap_err :: "('e \<Rightarrow> 'f) \<Rightarrow> ('s, 'a, 'e) call \<Rightarrow> ('s, 'a, 'f) call" where
  "smap_err f m s = (map_err f (fst (m s)), snd (m s))"

lemma smap_err_Ok_iff: "smap_err f m s = (Ok a, t) \<longleftrightarrow> m s = (Ok a, t)"
  by (cases "m s") (auto simp: smap_err_def)

subsection \<open>Third-party interfaces\<close>

text \<open>The keyring: entries are named by a service and a user; \<open>'s\<close> is the state of the store.\<close>

record 's keyring_api =
  kr_entry :: "rstring \<Rightarrow> rstring \<Rightarrow> (unit, keyring_error) outcome"
  kr_get :: "rstring \<Rightarrow> rstring \<Rightarrow> 's \<Rightarrow> (rstring, keyring_error) outcome"
  kr_set :: "rstring \<Rightarrow> rstring \<Rightarrow> rstring \<Rightarrow> 's \<Rightarrow> (unit, keyring_error) outcome \<times> 's"

locale keyring_crate =
  fixes K :: "'s keyring_api"
  assumes get_set: "kr_set K service user pwd s = (Ok u, s') \<Longrightarrow> kr_get K service user s' = Ok pwd"
    and get_set_other: "kr_set K service user pwd s = (r, s') \<Longrightarrow> (service', user') \<noteq> (service, user) \<Longrightarrow>
      kr_get K service' user' s' = kr_get K service' user' s"

text \<open>
  JSON: an identity, and the data that the derived \<open>Serialize\<close> and \<open>Deserialize\<close> of a configuration write and
  read: the two fields that are not skipped (name and known peers), the peers as a sequence, and of
  each peer its name, the name of its device type, the string of its identifier and its address, which
  serde writes as text in a readable format. The crate is lossless on values of Rust's string type.
\<close>

type_synonym peer_data = "rstring \<times> device_type \<times> rstring \<times> rstring"
type_synonym conf_data = "rstring \<times> peer_data list"

definition strings_ok :: "conf_data \<Rightarrow> bool" where
  "strings_ok c \<longleftrightarrow> utf8_valid (fst c) \<and>
     (\<forall>(name, typ, i, addr) \<in> set (snd c). utf8_valid name \<and> utf8_valid i \<and> utf8_valid addr)"

record json_api =
  identity_to_json :: "identity \<Rightarrow> (rstring, string) outcome"
  identity_from_json :: "rstring \<Rightarrow> (identity, string) outcome"
  conf_to_json :: "conf_data \<Rightarrow> (rstring, string) outcome"
  conf_from_json :: "bytes \<Rightarrow> (conf_data, string) outcome"

locale json_crate =
  fixes J :: json_api
  assumes identity_json: "identity_to_json J i = Ok d \<Longrightarrow> identity_from_json J d = Ok i"
    and conf_json: "strings_ok c \<Longrightarrow> conf_to_json J c = Ok d \<Longrightarrow> conf_from_json J d = Ok c"

subsection \<open>Secrets\<close>

definition SERVICE_NAME :: rstring where
  "SERVICE_NAME = lit ''flydrop''"

definition IDENTITY :: rstring where
  "IDENTITY = lit ''Identity''"

definition TOTP_AUTH :: rstring where
  "TOTP_AUTH = lit ''_Totp''"

text \<open>\<open>new_identity\<close> is the outcome of \<open>Identity::new()\<close>.\<close>

definition get_identity ::
    "'s keyring_api \<Rightarrow> json_api \<Rightarrow> (identity, conf_error) outcome \<Rightarrow> ('s, identity, conf_error) call" where
  "get_identity K J new_identity =
     sbind (slift (map_err ConfSecret (kr_entry K SERVICE_NAME IDENTITY))) (\<lambda>_ s.
       case kr_get K SERVICE_NAME IDENTITY s of
         Ok data \<Rightarrow> slift (map_err ConfJson (identity_from_json J data)) s
       | Err NoEntry \<Rightarrow>
           sbind (slift new_identity) (\<lambda>i.
           sbind (slift (map_err ConfJson (identity_to_json J i))) (\<lambda>data.
           sbind (smap_err ConfSecret (kr_set K SERVICE_NAME IDENTITY data)) (\<lambda>_.
           sret i))) s
       | Err x \<Rightarrow> serr (ConfSecret x) s
       | Panic \<Rightarrow> slift Panic s)"

definition get_totp :: "'s keyring_api \<Rightarrow> peer_id \<Rightarrow> 's \<Rightarrow> (rstring, conf_error) outcome" where
  "get_totp K peer s =
     bind_o (map_err ConfSecret (kr_entry K SERVICE_NAME (inner peer @ TOTP_AUTH))) (\<lambda>_.
     map_err ConfSecret (kr_get K SERVICE_NAME (inner peer @ TOTP_AUTH) s))"

text \<open>The loop of \<open>to_known\<close>, over the peers in the order of the set.\<close>

fun to_known ::
    "'s keyring_api \<Rightarrow> 't totp_api \<Rightarrow> 's \<Rightarrow> peer_metadata list \<Rightarrow> ('t peer_candidate list, 'e) outcome" where
  "to_known K T s [] = Ok []"
| "to_known K T s (peer # peers) =
     (case get_totp K (pm_id peer) s of
        Ok pwd \<Rightarrow> (case authenticator_new T pwd of
            Ok auth \<Rightarrow> bind_o (to_known K T s peers) (\<lambda>cs. Ok (candidate_new peer auth # cs))
          | Err _ \<Rightarrow> to_known K T s peers
          | Panic \<Rightarrow> Panic)
      | Err _ \<Rightarrow> to_known K T s peers
      | Panic \<Rightarrow> Panic)"

subsection \<open>Configuration\<close>

definition NODE_CONFIG_NAME :: rstring where
  "NODE_CONFIG_NAME = lit ''settings.json''"

record node_config =
  nc_name :: rstring
  nc_id :: peer_id
  nc_known_peers :: "peer_metadata set"

text \<open>
  The derived \<open>Serialize\<close> and \<open>Deserialize\<close> of \<open>NodeConfig\<close> and \<open>PeerMetadata\<close>. A hash set is written in the
  order it is iterated in (\<open>order\<close>) and read by inserting one peer after the other.
\<close>

definition serialize_peer :: "peer_metadata \<Rightarrow> peer_data" where
  "serialize_peer p = (pm_name p, pm_typ p, inner (pm_id p), show_socket_addr (pm_addr p))"

definition deserialize_peer :: "peer_data \<Rightarrow> (peer_metadata, string) outcome" where
  "deserialize_peer d = (case d of (name, typ, i, addr) \<Rightarrow> (case parse_socket_addr addr of
       Ok a \<Rightarrow> Ok \<lparr>pm_name = name, pm_typ = typ, pm_id = PeerId i, pm_addr = a\<rparr>
     | _ \<Rightarrow> Err ''invalid socket address''))"

fun deserialize_peers :: "peer_data list \<Rightarrow> (peer_metadata set, string) outcome" where
  "deserialize_peers [] = Ok {}"
| "deserialize_peers (d # ds) = bind_o (deserialize_peer d) (\<lambda>p. bind_o (deserialize_peers ds) (\<lambda>ps. Ok (insert p ps)))"

definition serialize_conf :: "(peer_metadata set \<Rightarrow> peer_metadata list) \<Rightarrow> node_config \<Rightarrow> conf_data" where
  "serialize_conf order conf = (nc_name conf, map serialize_peer (order (nc_known_peers conf)))"

definition deserialize_conf :: "conf_data \<Rightarrow> (node_config, string) outcome" where
  "deserialize_conf d = bind_o (deserialize_peers (snd d)) (\<lambda>ps.
     Ok \<lparr>nc_name = fst d, nc_id = peer_id_default, nc_known_peers = ps\<rparr>)"

text \<open>
  The platform: \<open>device_type\<close> exists for the two targets that \<open>cfg(target_os)\<close> names, and the core does not
  compile for another one. \<open>host_name\<close>: \<open>None\<close> is a host name that is not valid UTF-8.
\<close>

datatype target_os = TargetWindows | TargetIos

definition device_type :: "target_os \<Rightarrow> device_type" where
  "device_type os = (case os of TargetWindows \<Rightarrow> WindowsLaptop | TargetIos \<Rightarrow> AppleiPhone)"

definition host_name :: "rstring option \<Rightarrow> rstring" where
  "host_name os_name = (case os_name of Some n \<Rightarrow> n | None \<Rightarrow> lit ''my-flydrop'')"

definition node_config_default :: "rstring option \<Rightarrow> node_config" where
  "node_config_default os_name =
     \<lparr>nc_name = host_name os_name, nc_id = peer_id_default, nc_known_peers = {}\<rparr>"

text \<open>
  The file system: the content of each file, by the components pushed onto its path. The answers of
  the operating system beyond that are a parameter: an operation fails where \<open>io\<close> has an error.
  What a failing write leaves behind is a prefix of the data, whose length is given with the error.
\<close>

type_synonym path = "rstring list"

datatype fs_op = Create path | WriteAll path | OpenFile path

record 's world =
  files :: "path \<rightharpoonup> bytes"
  keys :: 's

definition config_path :: "rstring \<Rightarrow> path" where
  "config_path dir = [dir, NODE_CONFIG_NAME]"

definition file_create :: "(fs_op \<Rightarrow> (nat \<times> io_error) option) \<Rightarrow> path \<Rightarrow> ('s world, unit, conf_error) call" where
  "file_create io p w = (case io (Create p) of
       Some (_, e) \<Rightarrow> (Err (ConfIO e), w)
     | None \<Rightarrow> (Ok (), w\<lparr>files := (files w)(p \<mapsto> [])\<rparr>))"

definition file_write_all ::
    "(fs_op \<Rightarrow> (nat \<times> io_error) option) \<Rightarrow> path \<Rightarrow> bytes \<Rightarrow> ('s world, unit, conf_error) call" where
  "file_write_all io p data w = (case io (WriteAll p) of
       Some (n, e) \<Rightarrow> (Err (ConfIO e), w\<lparr>files := (files w)(p \<mapsto> take n data)\<rparr>)
     | None \<Rightarrow> (Ok (), w\<lparr>files := (files w)(p \<mapsto> data)\<rparr>))"

definition file_read :: "(fs_op \<Rightarrow> (nat \<times> io_error) option) \<Rightarrow> path \<Rightarrow> ('s world, bytes, conf_error) call" where
  "file_read io p w = (case io (OpenFile p) of
       Some (_, e) \<Rightarrow> (Err (ConfIO e), w)
     | None \<Rightarrow> (case files w p of
           Some data \<Rightarrow> (Ok data, w)
         | None \<Rightarrow> (Err (ConfIO (IoError ''NotFound'')), w)))"

text \<open>\<open>NodeConfigStore\<close> is its directory, which \<open>From<String>\<close> wraps.\<close>

type_synonym node_config_store = rstring

definition node_config_store_from :: "rstring \<Rightarrow> node_config_store" where
  "node_config_store_from value = value"

definition store_set ::
    "(fs_op \<Rightarrow> (nat \<times> io_error) option) \<Rightarrow> json_api \<Rightarrow> (peer_metadata set \<Rightarrow> peer_metadata list) \<Rightarrow>
     node_config_store \<Rightarrow> node_config \<Rightarrow> ('s world, unit, conf_error) call" where
  "store_set io J order dir conf =
     (if dir \<noteq> [] then
        sbind (file_create io (config_path dir)) (\<lambda>_.
        sbind (slift (map_err ConfJson (conf_to_json J (serialize_conf order conf)))) (\<lambda>json.
        file_write_all io (config_path dir) json))
      else sret ())"

definition from_disk ::
    "(fs_op \<Rightarrow> (nat \<times> io_error) option) \<Rightarrow> json_api \<Rightarrow> node_config_store \<Rightarrow> ('s world, node_config, conf_error) call" where
  "from_disk io J dir =
     sbind (file_read io (config_path dir)) (\<lambda>data.
     slift (map_err ConfJson (bind_o (conf_from_json J data) deserialize_conf)))"

text \<open>A call on the keyring as a call on the world.\<close>

definition on_keys :: "('s, 'a, 'e) call \<Rightarrow> ('s world, 'a, 'e) call" where
  "on_keys f w = (case f (keys w) of (r, s) \<Rightarrow> (r, w\<lparr>keys := s\<rparr>))"

definition store_get ::
    "(fs_op \<Rightarrow> (nat \<times> io_error) option) \<Rightarrow> 's keyring_api \<Rightarrow> json_api \<Rightarrow> ring_api \<Rightarrow>
     (identity, conf_error) outcome \<Rightarrow> rstring option \<Rightarrow> node_config_store \<Rightarrow> ('s world, node_config, conf_error) call" where
  "store_get io K J R new_identity os_name dir =
     sbind (\<lambda>w. case from_disk io J dir w of
         (Ok c, w') \<Rightarrow> (Ok c, w')
       | (Err _, w') \<Rightarrow> (Ok (node_config_default os_name), w')
       | (Panic, w') \<Rightarrow> (Panic, w')) (\<lambda>conf.
     sbind (on_keys (get_identity K J new_identity)) (\<lambda>identity.
     sret (conf\<lparr>nc_id := from_cert R (fst (into_rustls identity))\<rparr>)))"

subsection \<open>The local network\<close>

text \<open>
  \<open>IfWatcher\<close> of the crate \<^verbatim>\<open>if_watch\<close>: the addresses of the interfaces at its creation, and the events it
  will yield.
\<close>

datatype if_event = IfUp ip_addr | IfDown ip_addr

record if_watcher =
  iw_nets :: "ip_addr list"
  iw_events :: "(if_event, io_error) outcome list"

record lan_manager =
  lm_lan :: "ipv4_addr set"
  lm_watch :: if_watcher

definition lan_new :: "(if_watcher, io_error) outcome \<Rightarrow> (lan_manager, io_error) outcome" where
  "lan_new watcher = bind_o watcher (\<lambda>watch. Ok \<lparr>
     lm_lan = fold (\<lambda>net lan. case net of
       IpV4 a \<Rightarrow> if a \<noteq> LOCALHOST then insert a lan else lan
     | IpV6 _ \<Rightarrow> lan) (iw_nets watch) {},
     lm_watch = watch\<rparr>)"

text \<open>\<open>next\<close> takes the next event of the watcher; \<open>None\<close> is a call that is still waiting.\<close>

definition lan_next :: "lan_manager \<Rightarrow> ((if_event, io_error) outcome \<times> lan_manager) option" where
  "lan_next self = (case iw_events (lm_watch self) of
       [] \<Rightarrow> None
     | e # es \<Rightarrow> Some (e, self\<lparr>lm_watch := (lm_watch self)\<lparr>iw_events := es\<rparr>\<rparr>))"

subsection \<open>The node\<close>

text \<open>What a node is built from: the third-party code, the platform and the operating system.\<close>

record ('s, 't) core_env =
  ce_io :: "fs_op \<Rightarrow> (nat \<times> io_error) option"
  ce_keyring :: "'s keyring_api"
  ce_json :: json_api
  ce_ring :: ring_api
  ce_totp :: "'t totp_api"
  ce_identity :: "(identity, conf_error) outcome"
  ce_hostname :: "rstring option"
  ce_watcher :: "(if_watcher, io_error) outcome"
  ce_target :: target_os
  ce_lan_order :: "ipv4_addr set \<Rightarrow> ipv4_addr list"
  ce_peers_order :: "peer_metadata set \<Rightarrow> peer_metadata list"
  ce_sockets :: "socket_op \<Rightarrow> (unit, io_error) outcome"
  ce_bind :: "socket_addr \<Rightarrow> (listener, io_error) outcome"
  ce_local_addr :: "listener \<Rightarrow> (socket_addr, io_error) outcome"

record 't core_node =
  cn_conf :: node_config
  cn_store :: rstring
  cn_p2p :: "'t manager"
  cn_lan :: lan_manager

definition add_all_known :: "'t peer_candidate list \<Rightarrow> 't manager \<Rightarrow> 't manager" where
  "add_all_known peers m = fold (\<lambda>p m. snd (exec (add_known_peer p) m)) peers m"

definition init :: "('s, 't) core_env \<Rightarrow> rstring \<Rightarrow> ('s world, 't core_node, core_error) call" where
  "init E dir = (let store = node_config_store_from dir in
     sbind (smap_err CoreConf (store_get (ce_io E) (ce_keyring E) (ce_json E) (ce_ring E)
       (ce_identity E) (ce_hostname E) store)) (\<lambda>conf.
     sbind (slift (map_err CoreIO (lan_new (ce_watcher E)))) (\<lambda>lan.
     sbind (slift (case ce_lan_order E (lm_lan lan) of [] \<Rightarrow> Err NoNetworkAccess | a # _ \<Rightarrow> Ok a)) (\<lambda>addr.
     sbind (slift (map_err CoreP2p (manager_new (ce_sockets E) (ce_bind E) (ce_local_addr E)
       \<lparr>cfg_id = nc_id conf, cfg_device = device_type (ce_target E), cfg_name = nc_name conf,
        cfg_multicast = V4 DISCOVERY_MULTICAST 50692, cfg_p2p_addr = V4 addr 0\<rparr>))) (\<lambda>p2p.
     sbind (\<lambda>w. slift (to_known (ce_keyring E) (ce_totp E) (keys w)
       (ce_peers_order E (nc_known_peers conf))) w) (\<lambda>peers.
     sret \<lparr>cn_conf = conf, cn_store = store, cn_p2p = add_all_known peers p2p, cn_lan = lan\<rparr>))))))"

subsection \<open>Lemmas\<close>

lemma sbind_eq_Ok:
  "sbind m f s = (Ok b, t) \<Longrightarrow> (\<And>a s'. m s = (Ok a, s') \<Longrightarrow> f a s' = (Ok b, t) \<Longrightarrow> thesis) \<Longrightarrow> thesis"
  by (auto simp: sbind_Ok_iff)

lemma slift_Ok_iff: "slift r s = (Ok a, t) \<longleftrightarrow> r = Ok a \<and> t = s"
  by (auto simp: slift_def)

lemma lan_fold:
  "fold (\<lambda>net lan. case net of IpV4 a \<Rightarrow> if a \<noteq> LOCALHOST then insert a lan else lan | IpV6 _ \<Rightarrow> lan) ns A =
   A \<union> {a. IpV4 a \<in> set ns \<and> a \<noteq> LOCALHOST}"
  by (induction ns arbitrary: A) (auto split: ip_addr.split)

lemma lan_new_Ok_iff:
  "lan_new watcher = Ok lan \<longleftrightarrow>
     (\<exists>watch. watcher = Ok watch \<and> lan = \<lparr>lm_lan = {a. IpV4 a \<in> set (iw_nets watch) \<and> a \<noteq> LOCALHOST}, lm_watch = watch\<rparr>)"
  by (auto simp: lan_new_def bind_o_Ok_iff lan_fold)

lemma first_addr_Ok_iff: "(case xs of [] \<Rightarrow> Err e | a # _ \<Rightarrow> Ok a) = Ok b \<longleftrightarrow> (\<exists>rest. xs = b # rest)"
  by (cases xs) auto

text \<open>The two ways in which an identity is found.\<close>

lemma get_identity_Ok_iff:
  "get_identity K J n s = (Ok i, s') \<longleftrightarrow> kr_entry K SERVICE_NAME IDENTITY = Ok () \<and>
     ((\<exists>data. kr_get K SERVICE_NAME IDENTITY s = Ok data \<and> identity_from_json J data = Ok i \<and> s' = s) \<or>
      (kr_get K SERVICE_NAME IDENTITY s = Err NoEntry \<and> n = Ok i \<and>
       (\<exists>data. identity_to_json J i = Ok data \<and> kr_set K SERVICE_NAME IDENTITY data s = (Ok (), s'))))"
  by (cases "kr_get K SERVICE_NAME IDENTITY s")
    (auto simp: get_identity_def sbind_Ok_iff slift_Ok_iff call_basic smap_err_Ok_iff
      split: keyring_error.split)

lemma identity_persists:
  assumes "keyring_crate K" "json_crate J" "get_identity K J n s = (Ok i, s')"
  shows "get_identity K J n' s' = (Ok i, s')"
  using assms(3) keyring_crate.get_set [OF assms(1)] json_crate.identity_json [OF assms(2)]
  unfolding get_identity_Ok_iff by blast

text \<open>The peers \<open>to_known\<close> keeps: those with a stored secret that makes an authenticator.\<close>

definition usable :: "'s keyring_api \<Rightarrow> 't totp_api \<Rightarrow> 's \<Rightarrow> peer_metadata \<Rightarrow> 't pairing_authenticator \<Rightarrow> bool" where
  "usable K T s peer auth = (\<exists>pwd. get_totp K (pm_id peer) s = Ok pwd \<and> authenticator_new T pwd = Ok auth)"

lemma to_known_Ok:
  fixes T :: "'t totp_api"
  shows "(to_known K T s peers :: ('t peer_candidate list, 'e) outcome) = Ok cs \<Longrightarrow>
   set cs = {candidate_new peer auth | peer auth. peer \<in> set peers \<and> usable K T s peer auth}"
proof (induction peers arbitrary: cs)
  case (Cons peer peers)
  have known: "usable K T s peer a \<longleftrightarrow> get_totp K (pm_id peer) s = Ok pwd \<and> a = auth"
    if "get_totp K (pm_id peer) s = Ok pwd" "authenticator_new T pwd = Ok auth" for a pwd auth
    using that by (auto simp: usable_def)
  consider (keep) pwd auth cs' where "get_totp K (pm_id peer) s = Ok pwd" "authenticator_new T pwd = Ok auth"
      "(to_known K T s peers :: ('t peer_candidate list, 'e) outcome) = Ok cs'" "cs = candidate_new peer auth # cs'"
    | (drop) "\<nexists>a. usable K T s peer a"
      "(to_known K T s peers :: ('t peer_candidate list, 'e) outcome) = Ok cs"
    using Cons.prems by (auto simp: usable_def bind_o_Ok_iff split: outcome.split_asm)
  then show ?case
  proof cases
    case keep
    with Cons.IH [OF keep(3)] known [OF keep(1,2)] show ?thesis by auto metis
  next
    case drop
    with Cons.IH [OF drop(2)] show ?thesis by auto
  qed
qed simp

lemma add_all_known_eq:
  "add_all_known cs m = m\<lparr>known_peers := known_peers m ++ map_of (rev (map (\<lambda>c. (pc_id c, c)) cs))\<rparr>"
  unfolding add_all_known_def
proof (induction cs arbitrary: m)
  case (Cons c cs)
  then show ?case by (simp add: exec_methods map_add_def fun_eq_iff split: option.split)
qed simp

lemma file_ops_Ok_iff:
  "file_create io p w = (Ok (), w') \<longleftrightarrow> io (Create p) = None \<and> w' = w\<lparr>files := (files w)(p \<mapsto> [])\<rparr>"
  "file_write_all io p data w = (Ok (), w') \<longleftrightarrow>
     io (WriteAll p) = None \<and> w' = w\<lparr>files := (files w)(p \<mapsto> data)\<rparr>"
  by (auto simp: file_create_def file_write_all_def split: option.split)

lemma store_set_Ok_iff:
  "store_set io J order dir conf w = (Ok (), w') \<longleftrightarrow> dir = [] \<and> w' = w \<or>
     dir \<noteq> [] \<and> io (Create (config_path dir)) = None \<and> io (WriteAll (config_path dir)) = None \<and>
     (\<exists>json. conf_to_json J (serialize_conf order conf) = Ok json \<and>
        w' = w\<lparr>files := (files w)(config_path dir \<mapsto> json)\<rparr>)"
  by (auto simp: store_set_def sbind_Ok_iff slift_Ok_iff file_ops_Ok_iff call_basic)

text \<open>What a failed save has done to the file.\<close>

lemma store_set_Err:
  assumes "store_set io J order dir conf w = (Err e, w')"
  shows "w' = w \<and> io (Create (config_path dir)) \<noteq> None \<or>
    (\<exists>n json. files w' (config_path dir) = Some (take n json) \<and>
      (n = 0 \<or> conf_to_json J (serialize_conf order conf) = Ok json))"
  using assms
  by (cases "conf_to_json J (serialize_conf order conf)")
    (auto simp: store_set_def sbind_def slift_def sret_def file_create_def file_write_all_def
      split: if_split_asm option.split_asm, blast)

text \<open>What is left of a peer on disk: everything but the flow information of its address.\<close>

definition stored_peer :: "peer_metadata \<Rightarrow> peer_metadata" where
  "stored_peer p = p\<lparr>pm_addr := forget_flow (pm_addr p)\<rparr>"

lemma stored_peer_printable: "printable (pm_addr p) \<Longrightarrow> stored_peer p = p"
  by (simp add: stored_peer_def forget_flow_printable)

lemma deserialize_serialize: "deserialize_peers (map serialize_peer ps) = Ok (stored_peer ` set ps)"
proof (induction ps)
  case (Cons p ps)
  have "deserialize_peer (serialize_peer p) = Ok (stored_peer p)"
    by (simp add: deserialize_peer_def serialize_peer_def parse_show_forgets stored_peer_def)
  with Cons.IH show ?case by simp
qed simp

lemma deserialize_not_Panic: "deserialize_conf d \<noteq> Panic"
proof -
  have "deserialize_peers ps \<noteq> Panic" for ps
  proof (induction ps)
    case (Cons d ps)
    have "deserialize_peer d \<noteq> Panic" by (auto simp: deserialize_peer_def split: prod.split outcome.split)
    with Cons.IH show ?case by (cases "deserialize_peer d"; cases "deserialize_peers ps") simp_all
  qed simp
  then show ?thesis
    unfolding deserialize_conf_def by (cases "deserialize_peers (snd d)") simp_all
qed

text \<open>The strings of a configuration, which in Rust are valid UTF-8.\<close>

definition conf_ok :: "node_config \<Rightarrow> bool" where
  "conf_ok conf \<longleftrightarrow> utf8_valid (nc_name conf) \<and>
     (\<forall>p \<in> nc_known_peers conf. utf8_valid (pm_name p) \<and> utf8_valid (inner (pm_id p)))"

lemma serialize_strings:
  "conf_ok conf \<Longrightarrow> set (order (nc_known_peers conf)) = nc_known_peers conf \<Longrightarrow> strings_ok (serialize_conf order conf)"
  by (auto simp: conf_ok_def strings_ok_def serialize_conf_def serialize_peer_def ascii_utf8_valid)

lemma get_after_set:
  assumes "json_crate J" and "dir \<noteq> []" and "store_set io J order dir conf w = (Ok (), w')"
    and "conf_ok conf" and "set (order (nc_known_peers conf)) = nc_known_peers conf"
    and "io (OpenFile (config_path dir)) = None"
    and "get_identity K J new_identity (keys w) = (Ok identity, s)"
  shows "store_get io K J R new_identity os_name dir w' =
    (Ok \<lparr>nc_name = nc_name conf, nc_id = from_cert R (certificate identity),
       nc_known_peers = stored_peer ` nc_known_peers conf\<rparr>, w'\<lparr>keys := s\<rparr>)"
proof -
  obtain json where json: "conf_to_json J (serialize_conf order conf) = Ok json"
    and w': "w' = w\<lparr>files := (files w)(config_path dir \<mapsto> json)\<rparr>"
    using assms(2,3) unfolding store_set_Ok_iff by auto
  have strings: "strings_ok (serialize_conf order conf)" using assms(4,5) by (rule serialize_strings)
  have "from_disk io J dir w' =
      (Ok \<lparr>nc_name = nc_name conf, nc_id = peer_id_default, nc_known_peers = stored_peer ` nc_known_peers conf\<rparr>, w')"
    using json_crate.conf_json [OF assms(1) strings json] assms(5,6)
    by (simp add: from_disk_def file_read_def w' sbind_def slift_def deserialize_conf_def serialize_conf_def
        deserialize_serialize)
  then show ?thesis
    using assms(7) by (simp add: store_get_def sbind_def on_keys_def w' sret_def into_rustls_def)
qed

subsection \<open>The properties\<close>

text \<open>
  C24. Saving and loading the configuration: after a successful save to a directory, loading from it
  gives the saved name and known peers, with the identifier derived from the node's certificate
  whatever identifier was saved. Addresses are saved as text, so of an IPv6 address the flow
  information is lost; a configuration whose addresses have none is loaded back as it was.
\<close>

theorem config_roundtrip:
  assumes "json_crate J" and "dir \<noteq> []" and "store_set io J order dir conf w = (Ok (), w')"
    and "conf_ok conf" and "set (order (nc_known_peers conf)) = nc_known_peers conf"
    and "io (OpenFile (config_path dir)) = None"
    and "get_identity K J new_identity (keys w) = (Ok identity, s)"
  shows "store_get io K J R new_identity os_name dir w' =
      (Ok \<lparr>nc_name = nc_name conf, nc_id = from_cert R (certificate identity),
         nc_known_peers = (\<lambda>p. p\<lparr>pm_addr := forget_flow (pm_addr p)\<rparr>) ` nc_known_peers conf\<rparr>, w'\<lparr>keys := s\<rparr>) \<and>
    ((\<forall>p \<in> nc_known_peers conf. printable (pm_addr p)) \<longrightarrow>
      fst (store_get io K J R new_identity os_name dir w') = Ok (conf\<lparr>nc_id := from_cert R (certificate identity)\<rparr>))"
proof -
  note loaded = get_after_set [OF assms, of R os_name]
  have "stored_peer ` nc_known_peers conf = nc_known_peers conf" if "\<forall>p \<in> nc_known_peers conf. printable (pm_addr p)"
    using that stored_peer_printable by (auto simp: image_iff)
  with loaded show ?thesis by (simp add: stored_peer_def [abs_def])
qed

text \<open>The documented behaviour of the two crates by a keyring that is a map and JSON that is a pairing.\<close>

definition map_keyring :: "(rstring \<times> rstring \<rightharpoonup> rstring) keyring_api" where
  "map_keyring = \<lparr>kr_entry = (\<lambda>_ _. Ok ()),
     kr_get = (\<lambda>service user s. case s (service, user) of Some pwd \<Rightarrow> Ok pwd | None \<Rightarrow> Err NoEntry),
     kr_set = (\<lambda>service user pwd s. (Ok (), s((service, user) \<mapsto> pwd)))\<rparr>"

interpretation map_keyring: keyring_crate map_keyring
  by unfold_locales (auto simp: map_keyring_def split: option.split)

definition length_prefixed :: "bytes \<times> bytes \<Rightarrow> bytes" where
  "length_prefixed p = replicate (length (fst p)) 1 @ 0 # fst p @ snd p"

definition split_prefixed :: "bytes \<Rightarrow> bytes \<times> bytes" where
  "split_prefixed d = (let n = length (takeWhile (\<lambda>b. b = 1) d); r = drop (Suc n) d in (take n r, drop n r))"

lemma split_length_prefixed: "split_prefixed (length_prefixed p) = p"
  by (cases p) (simp add: split_prefixed_def length_prefixed_def Let_def takeWhile_append2 takeWhile_tail)

text \<open>A configuration with any number of peers, its strings with their lengths in front.\<close>

definition encode_peer :: "peer_data \<Rightarrow> bytes \<Rightarrow> bytes" where
  "encode_peer p rest = (case p of (name, typ, i, addr) \<Rightarrow>
     length_prefixed (name, length_prefixed (replicate (unat (device_type_code typ)) 0,
       length_prefixed (i, length_prefixed (addr, rest)))))"

fun decode_peers :: "nat \<Rightarrow> bytes \<Rightarrow> (peer_data list, string) outcome" where
  "decode_peers 0 d = Ok []"
| "decode_peers (Suc n) d = (let (name, d1) = split_prefixed d; (typ, d2) = split_prefixed d1;
     (i, d3) = split_prefixed d2; (addr, d4) = split_prefixed d3
     in case device_type_try_from (of_nat (length typ)) of
       Ok t \<Rightarrow> bind_o (decode_peers n d4) (\<lambda>ps. Ok ((name, t, i, addr) # ps))
     | _ \<Rightarrow> Err ''typ'')"

lemma decode_encode_peers: "decode_peers (length ps) (foldr encode_peer ps []) = Ok ps"
proof (induction ps)
  case (Cons p ps)
  then show ?case by (cases p) (simp add: encode_peer_def split_length_prefixed device_type_try_from_code Let_def)
qed simp

definition sample_json :: json_api where
  "sample_json = \<lparr>
     identity_to_json = (\<lambda>i. Ok (length_prefixed (certificate i, private_key i))),
     identity_from_json = (\<lambda>d. Ok \<lparr>certificate = fst (split_prefixed d), private_key = snd (split_prefixed d)\<rparr>),
     conf_to_json = (\<lambda>(name, peers). Ok (length_prefixed (name,
       length_prefixed (replicate (length peers) 0, foldr encode_peer peers [])))),
     conf_from_json = (\<lambda>d. let (name, r) = split_prefixed d; (n, ps) = split_prefixed r
       in bind_o (decode_peers (length n) ps) (\<lambda>peers. Ok (name, peers)))\<rparr>"

interpretation sample_json: json_crate sample_json
  by unfold_locales (auto simp: sample_json_def split_length_prefixed decode_encode_peers Let_def)

definition sample_identity :: identity where
  "sample_identity = \<lparr>certificate = [48, 1, 2], private_key = [7, 7]\<rparr>"

definition sample_world :: "(rstring \<times> rstring \<rightharpoonup> rstring) world" where
  "sample_world = \<lparr>files = Map.empty, keys = Map.empty\<rparr>"

definition sample_config :: node_config where
  "sample_config = \<lparr>nc_name = lit ''override name'', nc_id = peer_id_default, nc_known_peers = {test_metadata}\<rparr>"

lemma sample_config_ok: "conf_ok sample_config" "\<forall>p \<in> nc_known_peers sample_config. printable (pm_addr p)"
  using test_response_ok [of "list_platform True (\<lambda>_. False)"] peer_id_ok_utf8 [OF test_id_ok [of "list_platform True (\<lambda>_. False)"]]
  by (simp_all add: conf_ok_def sample_config_def test_metadata_def lit_def ascii_utf8_valid id_bytes_def)

theorem config_roundtrip_witness:
  "fst (store_get (\<lambda>_. None) map_keyring sample_json reference_ring (Ok sample_identity) None (lit ''tmp'')
     (snd (store_set (\<lambda>_. None) sample_json (\<lambda>_. [test_metadata]) (lit ''tmp'') sample_config sample_world))) =
   Ok (sample_config\<lparr>nc_id := from_cert reference_ring (certificate sample_identity)\<rparr>)"
proof -
  obtain w where set: "store_set (\<lambda>_. None) sample_json (\<lambda>_. [test_metadata]) (lit ''tmp'') sample_config sample_world = (Ok (), w)"
    unfolding store_set_Ok_iff by (simp add: sample_json_def lit_def serialize_conf_def)
  have ident: "get_identity map_keyring sample_json (Ok sample_identity) (keys sample_world) =
      (Ok sample_identity, [(SERVICE_NAME, IDENTITY) \<mapsto> length_prefixed ([48, 1, 2], [7, 7])])"
    unfolding get_identity_Ok_iff
    by (simp add: map_keyring_def sample_json_def sample_identity_def sample_world_def)
  have dir: "lit ''tmp'' \<noteq> []" by (simp add: lit_def)
  have order: "set [test_metadata] = nc_known_peers sample_config" by (simp add: sample_config_def)
  show ?thesis
    using config_roundtrip [OF sample_json.json_crate_axioms dir set sample_config_ok(1) order refl ident, of reference_ring None,
        THEN conjunct2, rule_format] sample_config_ok(2)
    unfolding set snd_conv by blast
qed

text \<open>
  The unit test of the store (\<^verbatim>\<open>mod tests\<close> of \<^verbatim>\<open>conf.rs\<close>). \<open>new1\<close> and \<open>new2\<close> are the identities that would be
  generated by its two calls of \<open>get\<close>; the directory is the one of the source, with 92 the backslash.
\<close>

definition test_dir :: rstring where
  "test_dir = lit ''C:'' @ 92 # lit ''Users'' @ 92 # lit ''bryan'' @ 92 # lit ''AppData'' @ 92 #
     lit ''Local'' @ 92 # lit ''Temp''"

definition remove_file :: "path \<Rightarrow> 's world \<Rightarrow> 's world" where
  "remove_file p w = w\<lparr>files := (files w)(p := None)\<rparr>"

definition get_set_conf :: "(fs_op \<Rightarrow> (nat \<times> io_error) option) \<Rightarrow> 's keyring_api \<Rightarrow> json_api \<Rightarrow>
    (peer_metadata set \<Rightarrow> peer_metadata list) \<Rightarrow> ring_api \<Rightarrow>
    (identity, conf_error) outcome \<Rightarrow> (identity, conf_error) outcome \<Rightarrow> rstring option \<Rightarrow>
    ('s world, unit, conf_error) call" where
  "get_set_conf io K J order R new1 new2 os_name =
     (let store = test_dir in
     sbind (store_get io K J R new1 os_name store) (\<lambda>conf.
     sbind (slift (assert_o (peer_id_default \<noteq> nc_id conf))) (\<lambda>_.
     sbind (store_set io J order store (conf\<lparr>nc_name := lit ''override name''\<rparr>)) (\<lambda>_.
     sbind (store_get io K J R new2 os_name store) (\<lambda>conf.
     sbind (slift (assert_o (lit ''override name'' = nc_name conf))) (\<lambda>_.
     smodify (remove_file (config_path test_dir))))))))"

text \<open>
  It passes with the mock keyring, whose entries are always fresh, on a file system that works,
  whatever was on the disk before.
\<close>

definition loaded_ok :: "node_config \<Rightarrow> bool" where
  "loaded_ok c \<longleftrightarrow> finite (nc_known_peers c) \<and>
     (\<forall>p \<in> nc_known_peers c. utf8_valid (pm_name p) \<and> utf8_valid (inner (pm_id p)))"

lemma deserialize_peers_strings:
  "deserialize_peers ds = Ok ps \<Longrightarrow> \<forall>(name, typ, i, addr) \<in> set ds. utf8_valid name \<and> utf8_valid i \<and> utf8_valid addr \<Longrightarrow>
     finite ps \<and> (\<forall>p \<in> ps. utf8_valid (pm_name p) \<and> utf8_valid (inner (pm_id p)))"
proof (induction ds arbitrary: ps)
  case (Cons d ds)
  from Cons.prems(1) obtain p ps' where p: "deserialize_peer d = Ok p" "deserialize_peers ds = Ok ps'" "ps = insert p ps'"
    by (auto simp: bind_o_Ok_iff)
  from p(1) Cons.prems(2) have "utf8_valid (pm_name p) \<and> utf8_valid (inner (pm_id p))"
    by (auto simp: deserialize_peer_def split: prod.split_asm outcome.split_asm)
  with Cons.IH [OF p(2)] Cons.prems(2) p(3) show ?case by simp
qed simp

lemma from_disk_loads:
  assumes "\<And>op. io op = None" and "\<And>d. conf_from_json J d \<noteq> Panic" and "\<And>d c. conf_from_json J d = Ok c \<Longrightarrow> strings_ok c"
  shows "\<exists>c. (case from_disk io J dir w of (Ok c, w') \<Rightarrow> (Ok c, w')
      | (Err _, w') \<Rightarrow> (Ok (node_config_default os_name), w') | (Panic, w') \<Rightarrow> (Panic, w')) =
      (Ok c :: (node_config, conf_error) outcome, w) \<and> loaded_ok c"
proof -
  have default: "loaded_ok (node_config_default os_name)" by (simp add: loaded_ok_def node_config_default_def)
  show ?thesis
  proof (cases "files w (config_path dir)")
    case None
    then show ?thesis using assms(1) default by (simp add: from_disk_def file_read_def sbind_def)
  next
    case (Some data)
    let ?r = "bind_o (conf_from_json J data) deserialize_conf"
    have disk: "from_disk io J dir w = (map_err ConfJson ?r, w)"
      using assms(1) Some by (simp add: from_disk_def file_read_def sbind_def slift_def)
    have "?r \<noteq> Panic" using assms(2) deserialize_not_Panic by (cases "conf_from_json J data") simp_all
    moreover have "loaded_ok c" if r: "?r = Ok c" for c
    proof -
      obtain d ps where "conf_from_json J data = Ok d" "deserialize_peers (snd d) = Ok ps" "nc_known_peers c = ps"
        using r by (auto simp: bind_o_Ok_iff deserialize_conf_def)
      with deserialize_peers_strings [of "snd d" ps] assms(3) show ?thesis by (simp add: strings_ok_def loaded_ok_def)
    qed
    ultimately show ?thesis using default disk by (cases ?r) auto
  qed
qed

lemma get_set_conf_passes:
  assumes "json_crate J" and "ring_crate R" and "\<And>op. io op = None" and "\<And>c. is_ok (conf_to_json J c)"
    and "kr_entry K SERVICE_NAME IDENTITY = Ok ()" and "\<And>s. kr_get K SERVICE_NAME IDENTITY s = Err NoEntry"
    and "\<And>data s. fst (kr_set K SERVICE_NAME IDENTITY data s) = Ok ()" and "\<And>i. is_ok (identity_to_json J i)"
    and "\<And>d. conf_from_json J d \<noteq> Panic" and "\<And>d c. conf_from_json J d = Ok c \<Longrightarrow> strings_ok c"
    and "\<And>S. finite S \<Longrightarrow> set (order S) = S"
  shows "fst (get_set_conf io K J order R (Ok i1) (Ok i2) os_name w) = Ok ()"
proof -
  have ident: "\<exists>s'. get_identity K J (Ok i) s = (Ok i, s')" for i s
  proof -
    obtain data where "identity_to_json J i = Ok data"
      using assms(8) [of i] by (auto simp: is_ok_def split: outcome.split_asm)
    then show ?thesis
      unfolding get_identity_Ok_iff using assms(5,6) assms(7) [of data s] by (metis prod.collapse)
  qed
  obtain c where c: "(case from_disk io J test_dir w of (Ok c, w') \<Rightarrow> (Ok c, w')
      | (Err _, w') \<Rightarrow> (Ok (node_config_default os_name), w') | (Panic, w') \<Rightarrow> (Panic, w')) =
      (Ok c :: (node_config, conf_error) outcome, w)" "loaded_ok c"
    using from_disk_loads [of io J os_name test_dir w] assms(3,9,10) by blast
  obtain s1 where s1: "get_identity K J (Ok i1) (keys w) = (Ok i1, s1)" using ident by blast
  then have first: "store_get io K J R (Ok i1) os_name test_dir w =
      (Ok (c\<lparr>nc_id := from_cert R (certificate i1)\<rparr>), w\<lparr>keys := s1\<rparr>)"
    using c(1) by (simp add: store_get_def sbind_def on_keys_def sret_def into_rustls_def)
  define conf where "conf = c\<lparr>nc_id := from_cert R (certificate i1), nc_name := lit ''override name''\<rparr>"
  have conf: "conf_ok conf" "set (order (nc_known_peers conf)) = nc_known_peers conf"
    using c(2) assms(11) by (auto simp: loaded_ok_def conf_ok_def conf_def lit_def ascii_utf8_valid)
  obtain json where json: "conf_to_json J (serialize_conf order conf) = Ok json"
    using assms(4) [of "serialize_conf order conf"] by (auto simp: is_ok_def split: outcome.split_asm)
  define w1 where "w1 = w\<lparr>keys := s1, files := (files w)(config_path test_dir \<mapsto> json)\<rparr>"
  have dir: "test_dir \<noteq> []" by (simp add: test_dir_def)
  have set: "store_set io J order test_dir conf (w\<lparr>keys := s1\<rparr>) = (Ok (), w1)"
    unfolding store_set_Ok_iff using assms(3) dir json by (simp add: w1_def)
  obtain s2 where s2: "get_identity K J (Ok i2) (keys (w\<lparr>keys := s1\<rparr>)) = (Ok i2, s2)" using ident by blast
  note get = get_after_set [OF assms(1) dir set conf assms(3) s2, of R os_name]
  have "peer_id_default \<noteq> from_cert R (certificate i1)"
    using ring_crate.from_cert_length [OF assms(2), of "certificate i1"]
    by (auto simp: peer_id_default_def lit_def dest: arg_cong [of _ _ "\<lambda>i. length (inner i)"])
  then show ?thesis
    using get set by (simp add: get_set_conf_def outcome_simps first conf_def)
qed

text \<open>
  C25. The identity is created once: after a successful call, every later call finds the same identity
  and leaves the keyring as it is, whatever a newly generated identity would have been.
\<close>

theorem identity_stable:
  assumes "keyring_crate K" and "json_crate J" and "get_identity K J new_identity s = (Ok identity, s')"
  shows "get_identity K J new_identity' s' = (Ok identity, s')"
  using assms by (rule identity_persists)

theorem identity_stable_witness:
  "get_identity map_keyring sample_json Panic
     [(SERVICE_NAME, IDENTITY) \<mapsto> length_prefixed ([48, 1, 2], [7, 7])] =
   (Ok sample_identity, [(SERVICE_NAME, IDENTITY) \<mapsto> length_prefixed ([48, 1, 2], [7, 7])])"
proof (rule identity_stable [OF map_keyring.keyring_crate_axioms sample_json.json_crate_axioms])
  show "get_identity map_keyring sample_json (Ok sample_identity) Map.empty =
      (Ok sample_identity, [(SERVICE_NAME, IDENTITY) \<mapsto> length_prefixed ([48, 1, 2], [7, 7])])"
    unfolding get_identity_Ok_iff by (simp add: map_keyring_def sample_json_def sample_identity_def)
qed

text \<open>
  C40. A failed save loses the configuration on disk: unless the file could not be created at all, the
  old content is gone and the file holds nothing, or a prefix of the new one.
\<close>

theorem failed_save_truncates:
  assumes "store_set io J order dir conf w = (Err e, w')"
  shows "w' = w \<and> io (Create (config_path dir)) \<noteq> None \<or>
    (\<exists>n json. files w' (config_path dir) = Some (take n json) \<and>
      (n = 0 \<or> conf_to_json J (serialize_conf order conf) = Ok json))"
  using assms by (rule store_set_Err)

theorem failed_save_truncates_witness:
  "\<exists>n json. files (snd (store_set (\<lambda>op. if op = WriteAll (config_path (lit ''tmp'')) then Some (3, IoError ''full'') else None)
     sample_json (\<lambda>_. [test_metadata]) (lit ''tmp'') sample_config
     (sample_world\<lparr>files := [config_path (lit ''tmp'') \<mapsto> lit ''old'']\<rparr>))) (config_path (lit ''tmp'')) = Some (take n json) \<and>
     (n = 0 \<or> conf_to_json sample_json (serialize_conf (\<lambda>_. [test_metadata]) sample_config) = Ok json)"
proof -
  let ?io = "\<lambda>op. if op = WriteAll (config_path (lit ''tmp'')) then Some (3, IoError ''full'') else None"
  let ?w = "sample_world\<lparr>files := [config_path (lit ''tmp'') \<mapsto> lit ''old'']\<rparr>"
  have "fst (store_set ?io sample_json (\<lambda>_. [test_metadata]) (lit ''tmp'') sample_config ?w) = Err (ConfIO (IoError ''full''))"
    by (simp add: store_set_def sbind_def slift_def file_create_def file_write_all_def sample_json_def lit_def serialize_conf_def)
  then obtain w' where set: "store_set ?io sample_json (\<lambda>_. [test_metadata]) (lit ''tmp'') sample_config ?w =
      (Err (ConfIO (IoError ''full'')), w')"
    by (metis prod.collapse)
  from failed_save_truncates [OF set] show ?thesis by (simp add: set)
qed

text \<open>
  C21. What a started node knows: a successful \<open>init\<close> gives a manager with the identifier of the
  configuration, listening on the first local address that is not the loopback address, with nobody
  discovered or connected, whose known peers are exactly the configured peers for which the keyring
  has a secret that makes an authenticator, each with that authenticator.
\<close>

theorem init_knows_configured_peers:
  fixes E :: "('s, 't) core_env"
  assumes "init E dir w = (Ok node, w')"
    and "set (ce_peers_order E (nc_known_peers (cn_conf node))) = nc_known_peers (cn_conf node)"
    and "set (ce_lan_order E (lm_lan (cn_lan node))) = lm_lan (cn_lan node)"
  shows "m_id (cn_p2p node) = nc_id (cn_conf node) \<and> discovered_peers (cn_p2p node) = Map.empty \<and>
    connected_peers (cn_p2p node) = {} \<and>
    (\<exists>a \<in> lm_lan (cn_lan node). a \<noteq> LOCALHOST \<and> (\<exists>l. ce_bind E (V4 a 0) = Ok l \<and>
       ce_local_addr E l = Ok (pm_addr (m_metadata (cn_p2p node))))) \<and>
    (\<forall>i c. known_peers (cn_p2p node) i = Some c \<longrightarrow>
      (\<exists>peer \<in> nc_known_peers (cn_conf node). \<exists>auth. pm_id peer = i \<and> c = candidate_new peer auth \<and>
         usable (ce_keyring E) (ce_totp E) (keys w') peer auth)) \<and>
    (\<forall>peer \<in> nc_known_peers (cn_conf node). \<forall>auth. usable (ce_keyring E) (ce_totp E) (keys w') peer auth \<longrightarrow>
      pm_id peer \<in> dom (known_peers (cn_p2p node)))"
proof -
  obtain conf lan addr rest m cs where
    lan: "lan_new (ce_watcher E) = Ok lan" and addr: "ce_lan_order E (lm_lan lan) = addr # rest"
    and m: "manager_new (ce_sockets E) (ce_bind E) (ce_local_addr E) \<lparr>cfg_id = nc_id conf, cfg_device = device_type (ce_target E),
        cfg_name = nc_name conf, cfg_multicast = V4 DISCOVERY_MULTICAST 50692, cfg_p2p_addr = V4 addr 0\<rparr> = Ok m"
    and cs: "(to_known (ce_keyring E) (ce_totp E) (keys w') (ce_peers_order E (nc_known_peers conf))
        :: ('t peer_candidate list, core_error) outcome) = Ok cs"
    and node: "node = \<lparr>cn_conf = conf, cn_store = dir, cn_p2p = add_all_known cs m, cn_lan = lan\<rparr>"
    using assms(1) unfolding init_def node_config_store_from_def Let_def
    by (auto simp: sbind_Ok_iff slift_Ok_iff call_basic first_addr_Ok_iff)
  have "addr \<in> lm_lan lan" using assms(3) addr node by auto
  then have host: "addr \<in> lm_lan lan" "addr \<noteq> LOCALHOST" using lan by (auto simp: lan_new_Ok_iff)
  have peers: "set cs = {candidate_new peer auth | peer auth.
      peer \<in> nc_known_peers conf \<and> usable (ce_keyring E) (ce_totp E) (keys w') peer auth}"
    using to_known_Ok [OF cs] assms(2) by (simp add: node)
  have known: "known_peers (add_all_known cs m) = map_of (rev (map (\<lambda>c. (pc_id c, c)) cs))"
    and fresh: "m_id (add_all_known cs m) = nc_id conf" "discovered_peers (add_all_known cs m) = Map.empty"
      "connected_peers (add_all_known cs m) = {}"
      "\<exists>l. ce_bind E (V4 addr 0) = Ok l \<and> ce_local_addr E l = Ok (pm_addr (m_metadata (add_all_known cs m)))"
    using m by (auto simp: manager_new_Ok_iff add_all_known_eq simp del: multicast_ops.simps)
  have found: "\<exists>peer \<in> nc_known_peers conf. \<exists>auth. pm_id peer = i \<and> c = candidate_new peer auth \<and>
      usable (ce_keyring E) (ce_totp E) (keys w') peer auth"
    if "known_peers (add_all_known cs m) i = Some c" for i c
  proof -
    have "c \<in> set cs" "pc_id c = i" using map_of_SomeD [OF that [unfolded known]] by auto
    then show ?thesis by (auto simp: peers candidate_new_def)
  qed
  have dom: "dom (known_peers (add_all_known cs m)) = pc_id ` set cs"
    by (simp add: known dom_map_of_conv_image_fst image_image)
  have all: "pm_id peer \<in> dom (known_peers (add_all_known cs m))"
    if "peer \<in> nc_known_peers conf" "usable (ce_keyring E) (ce_totp E) (keys w') peer auth" for peer auth
  proof -
    have "candidate_new peer auth \<in> set cs" using that peers by blast
    then show ?thesis unfolding dom by (force simp: candidate_new_def)
  qed
  show ?thesis
    using host fresh found all by (auto simp: node)
qed

definition sample_env :: "((rstring \<times> rstring \<rightharpoonup> rstring), totp_state) core_env" where
  "sample_env = \<lparr>ce_io = (\<lambda>_. None), ce_keyring = map_keyring,
     ce_json = sample_json, ce_ring = reference_ring,
     ce_totp = reference_totp, ce_identity = Ok sample_identity, ce_hostname = Some (lit ''host''),
     ce_watcher = Ok \<lparr>iw_nets = [IpV4 LOCALHOST, IpV4 (Ipv4Addr 10 0 0 7)], iw_events = []\<rparr>, ce_target = TargetWindows,
     ce_lan_order = (\<lambda>A. [Ipv4Addr 10 0 0 7]), ce_peers_order = (\<lambda>A. [test_metadata]),
     ce_sockets = (\<lambda>_. Ok ()), ce_bind = (\<lambda>a. Ok 3),
     ce_local_addr = (\<lambda>l. Ok (V4 (Ipv4Addr 10 0 0 7) 4000))\<rparr>"

definition paired_world :: "(rstring \<times> rstring \<rightharpoonup> rstring) world" where
  "paired_world = \<lparr>files = [config_path (lit ''tmp'') \<mapsto>
       length_prefixed (lit ''host'', length_prefixed ([0], encode_peer (serialize_peer test_metadata) []))],
     keys = [(SERVICE_NAME, IDENTITY) \<mapsto> length_prefixed ([48, 1, 2], [7, 7]),
       (SERVICE_NAME, inner test_id @ TOTP_AUTH) \<mapsto> replicate 20 7]\<rparr>"

lemma sample_names: "SERVICE_NAME \<noteq> []" "IDENTITY \<noteq> inner test_id @ TOTP_AUTH"
  by (simp_all add: SERVICE_NAME_def IDENTITY_def TOTP_AUTH_def test_id_def lit_def)

lemma sample_get:
  "store_get (ce_io sample_env) (ce_keyring sample_env) (ce_json sample_env) (ce_ring sample_env)
     (ce_identity sample_env) (ce_hostname sample_env) (lit ''tmp'') paired_world =
   (Ok \<lparr>nc_name = lit ''host'', nc_id = from_cert reference_ring [48, 1, 2], nc_known_peers = {test_metadata}\<rparr>,
    paired_world)"
proof -
  have ident: "get_identity (ce_keyring sample_env) (ce_json sample_env) (ce_identity sample_env) (keys paired_world) =
      (Ok sample_identity, keys paired_world)"
    unfolding get_identity_Ok_iff
    by (simp add: sample_env_def map_keyring_def paired_world_def sample_names sample_json_def
        split_length_prefixed sample_identity_def)
  have "from_disk (ce_io sample_env) (ce_json sample_env) (lit ''tmp'') paired_world =
      (Ok \<lparr>nc_name = lit ''host'', nc_id = peer_id_default, nc_known_peers = {test_metadata}\<rparr>, paired_world)"
  proof -
    have "conf_from_json sample_json (length_prefixed (lit ''host'',
        length_prefixed ([0], encode_peer (serialize_peer test_metadata) []))) = Ok (lit ''host'', [serialize_peer test_metadata])"
      using decode_encode_peers [of "[serialize_peer test_metadata]"]
      by (simp add: sample_json_def split_length_prefixed Let_def)
    moreover have "deserialize_peers [serialize_peer test_metadata] = Ok {test_metadata}"
      using deserialize_serialize [of "[test_metadata]"] stored_peer_printable [of test_metadata]
      by (simp add: test_metadata_def del: deserialize_peers.simps)
    ultimately show ?thesis
      by (simp add: from_disk_def file_read_def sbind_def slift_def sample_env_def paired_world_def deserialize_conf_def
          del: deserialize_peers.simps)
  qed
  then show ?thesis
    using ident
    by (simp add: store_get_def sbind_def on_keys_def sret_def into_rustls_def sample_identity_def)
      (simp add: sample_env_def)
qed

lemma sample_secret:
  "authenticator_new reference_totp (replicate 20 7) = Ok (pc_auth test_candidate)"
  "get_totp map_keyring test_id (keys paired_world) = Ok (replicate 20 7)"
  "pm_id test_metadata = test_id"
  by (simp_all add: authenticator_new_def reference_totp_def test_candidate_def candidate_new_def
      get_totp_def map_keyring_def paired_world_def sample_names test_metadata_def)

lemma sample_init:
  "\<exists>node. init sample_env (lit ''tmp'') paired_world = (Ok node, paired_world) \<and>
     nc_known_peers (cn_conf node) = {test_metadata} \<and> lm_lan (cn_lan node) = {Ipv4Addr 10 0 0 7}"
proof -
  have lan: "lan_new (ce_watcher sample_env) = Ok \<lparr>lm_lan = {Ipv4Addr 10 0 0 7},
      lm_watch = \<lparr>iw_nets = [IpV4 LOCALHOST, IpV4 (Ipv4Addr 10 0 0 7)], iw_events = []\<rparr>\<rparr>"
    by (auto simp: lan_new_Ok_iff sample_env_def LOCALHOST_def)
  obtain m where m: "manager_new (ce_sockets sample_env) (ce_bind sample_env) (ce_local_addr sample_env) \<lparr>cfg_id = from_cert reference_ring [48, 1, 2],
      cfg_device = WindowsLaptop, cfg_name = lit ''host'', cfg_multicast = V4 DISCOVERY_MULTICAST 50692,
      cfg_p2p_addr = V4 (Ipv4Addr 10 0 0 7) 0\<rparr> = (Ok m :: (totp_state manager, init_error) outcome)"
    by (auto simp: manager_new_Ok_iff sample_env_def DISCOVERY_MULTICAST_def)
  have fields: "ce_lan_order sample_env A = [Ipv4Addr 10 0 0 7]" "device_type (ce_target sample_env) = WindowsLaptop"
      "ce_peers_order sample_env B = [test_metadata]" "ce_keyring sample_env = map_keyring"
      "ce_totp sample_env = reference_totp" for A B
    by (simp_all add: sample_env_def device_type_def)
  have "init sample_env (lit ''tmp'') paired_world = (Ok \<lparr>cn_conf = \<lparr>nc_name = lit ''host'',
      nc_id = from_cert reference_ring [48, 1, 2], nc_known_peers = {test_metadata}\<rparr>, cn_store = lit ''tmp'',
      cn_p2p = add_all_known [candidate_new test_metadata (pc_auth test_candidate)] m,
      cn_lan = \<lparr>lm_lan = {Ipv4Addr 10 0 0 7},
        lm_watch = \<lparr>iw_nets = [IpV4 LOCALHOST, IpV4 (Ipv4Addr 10 0 0 7)], iw_events = []\<rparr>\<rparr>\<rparr>, paired_world)"
    unfolding init_def node_config_store_from_def Let_def
    by (simp add: sbind_Ok_iff smap_err_Ok_iff slift_Ok_iff call_basic sample_get lan fields(1))
      (simp add: fields(2-) m sample_secret)
  then show ?thesis by simp
qed

theorem init_knows_configured_peers_witness:
  "\<exists>node. init sample_env (lit ''tmp'') paired_world = (Ok node, paired_world) \<and>
     test_id \<in> dom (known_peers (cn_p2p node)) \<and> discovered_peers (cn_p2p node) = Map.empty"
proof -
  obtain node where node: "init sample_env (lit ''tmp'') paired_world = (Ok node, paired_world)"
      "nc_known_peers (cn_conf node) = {test_metadata}" "lm_lan (cn_lan node) = {Ipv4Addr 10 0 0 7}"
    using sample_init by blast
  have "usable (ce_keyring sample_env) (ce_totp sample_env) (keys paired_world) test_metadata (pc_auth test_candidate)"
    using sample_secret by (auto simp: usable_def sample_env_def)
  with init_knows_configured_peers [OF node(1)] node show ?thesis
    by (auto simp: sample_env_def sample_secret(3))
qed

text \<open>
  C37. The identifier a node gives itself is not one its protocol can carry: the identifier of every
  configuration that is loaded, and so of every node that starts, has 64 characters and is refused
  by the constructor that the decoders use.
\<close>

theorem node_id_not_a_protocol_id:
  assumes "ring_crate (ce_ring E)" and "init E dir w = (Ok node, w')"
  shows "length (inner (m_id (cn_p2p node))) = 64 \<and> \<not> peer_id_ok P (m_id (cn_p2p node)) \<and>
    from_string P (peer_id_to_string (m_id (cn_p2p node))) = Err IdLength"
proof -
  obtain conf w1 cfg m cs lan where conf: "store_get (ce_io E) (ce_keyring E) (ce_json E) (ce_ring E)
        (ce_identity E) (ce_hostname E) dir w = (Ok conf, w1)"
    and m: "manager_new (ce_sockets E) (ce_bind E) (ce_local_addr E) cfg = Ok m" "cfg_id cfg = nc_id conf"
    and node: "node = \<lparr>cn_conf = conf, cn_store = dir, cn_p2p = add_all_known cs m, cn_lan = lan\<rparr>"
    using assms(2) unfolding init_def node_config_store_from_def Let_def
    by (auto simp: sbind_Ok_iff slift_Ok_iff call_basic smap_err_Ok_iff)
  obtain cert where "nc_id conf = from_cert (ce_ring E) cert"
    using conf unfolding store_get_def by (auto simp: sbind_Ok_iff call_basic)
  with m node have id: "m_id (cn_p2p node) = from_cert (ce_ring E) cert"
    by (auto simp: add_all_known_eq manager_new_Ok_iff simp del: multicast_ops.simps)
  show ?thesis
    using ring_crate.from_cert_length [OF assms(1)] ring_crate.from_cert_rejected [OF assms(1)]
    by (simp add: id peer_id_ok_def peer_id_to_string_def)
qed

theorem node_id_not_a_protocol_id_witness:
  "\<exists>node. init sample_env (lit ''tmp'') paired_world = (Ok node, paired_world) \<and>
     from_string (list_platform True (\<lambda>_. False)) (peer_id_to_string (m_id (cn_p2p node))) = Err IdLength"
proof -
  have ring: "ring_crate (ce_ring sample_env)"
    using reference_ring.ring_crate_axioms by (simp add: sample_env_def)
  obtain node where "init sample_env (lit ''tmp'') paired_world = (Ok node, paired_world)"
    using sample_init by blast
  with node_id_not_a_protocol_id [OF ring this] show ?thesis by blast
qed

end
