(* ===== verification/Controller.thy ===== *)
theory Controller
  imports Core "HOL-Library.Multiset"
begin

text \<open>
  The running node and the controller the user interface holds (\<open>Node::start\<close>, its handlers and
  \<open>CoreController\<close> of \<^verbatim>\<open>core/src/node.rs\<close>). A call of the controller puts a message with the sender of a
  one-shot channel into an unbounded queue and waits for the reply; the node's loop takes messages
  from two queues and events of the network interfaces, in any order.

  The repository has neither the code that owns the node nor the code that builds a controller, so
  both are left open. \<open>start\<close> borrows the node: its owner may start it, cancel it, start it again after
  a panic, or drop it, at any time. A controller holds two senders; that they belong to the queues of
  the node is a hypothesis where it is needed.
\<close>

subsection \<open>Messages\<close>

text \<open>\<open>CoreEvent\<close> is never sent, and \<open>enum InternalEvent {}\<close> has no values, so \<open>handle_event\<close> is never called.\<close>

datatype core_event = Discovered

datatype app_cmd = SetName rstring | Discover u8

datatype app_query = GetConf

datatype core_response = RespOk | RespConf node_config

text \<open>A one-shot channel is its number.\<close>

record 'd returnable_message =
  rm_data :: 'd
  rm_return :: nat

text \<open>What a caller sees of its channel: \<open>rx.await.unwrap()\<close> panics when the sender was dropped.\<close>

datatype reply = Awaiting | Replied "(core_response, core_error) outcome"

text \<open>The senders of a controller, by the number of the channel they send on.\<close>

record core_controller =
  query_tx :: nat
  command_tx :: nat

text \<open>
  Whether \<open>start\<close> is running on the node, the node is there without it (not started yet, cancelled, or
  unwound by a panic), or its owner has dropped it.
\<close>

datatype run_phase = Idle | Serving | Dropped

text \<open>
  The node's two channels with their numbers and what is queued in them. \<open>run_elsewhere\<close> are the calls
  whose message went to a channel that is not one of the node's.
\<close>

record 't core_run =
  run_query_rx :: nat
  run_queries :: "app_query returnable_message list"
  run_cmd_rx :: nat
  run_cmds :: "app_cmd returnable_message list"
  run_elsewhere :: "nat list"
  run_lan :: lan_manager
  run_lan_on :: bool
  run_phase :: run_phase
  run_replies :: "reply list"
  run_tasks :: "('t, unit) prog list"

definition run_init :: "nat \<Rightarrow> nat \<Rightarrow> 't core_node \<Rightarrow> 't core_run" where
  "run_init qc cc node = \<lparr>run_query_rx = qc, run_queries = [], run_cmd_rx = cc, run_cmds = [], run_elsewhere = [],
     run_lan = cn_lan node, run_lan_on = True, run_phase = Idle, run_replies = [], run_tasks = []\<rparr>"

subsection \<open>The handlers\<close>

text \<open>\<open>todo!()\<close> panics. The task of \<open>Discover\<close> sleeps for a second before each request.\<close>

definition handle_query :: "app_query \<Rightarrow> (core_response, core_error) outcome" where
  "handle_query q = Panic"

primrec discover_task :: "nat \<Rightarrow> ('t, unit) prog" where
  "discover_task 0 = Done ()"
| "discover_task (Suc n) = pbind request_presence (\<lambda>_. discover_task n)"

fun handle_command :: "app_cmd \<Rightarrow> (core_response, core_error) outcome \<times> ('t, unit) prog list" where
  "handle_command (Discover span) = (Ok RespOk, [discover_task (unat span)])"
| "handle_command (SetName new) = (Panic, [])"

subsection \<open>Calls and turns\<close>

text \<open>
  The methods of the controller. The payload goes into the queue of the channel; if its receiver is
  gone, the send fails and drops the payload with its sender, so that the caller's \<open>unwrap\<close> panics.
\<close>

definition controller_query :: "core_controller \<Rightarrow> app_query \<Rightarrow> 't core_run \<Rightarrow> 't core_run" where
  "controller_query ctl q s = (let payload = \<lparr>rm_data = q, rm_return = length (run_replies s)\<rparr> in
     if query_tx ctl \<noteq> run_query_rx s
     then s\<lparr>run_replies := run_replies s @ [Awaiting], run_elsewhere := run_elsewhere s @ [rm_return payload]\<rparr>
     else if run_phase s = Dropped then s\<lparr>run_replies := run_replies s @ [Replied Panic]\<rparr>
     else s\<lparr>run_replies := run_replies s @ [Awaiting], run_queries := run_queries s @ [payload]\<rparr>)"

definition controller_command :: "core_controller \<Rightarrow> app_cmd \<Rightarrow> 't core_run \<Rightarrow> 't core_run" where
  "controller_command ctl c s = (let payload = \<lparr>rm_data = c, rm_return = length (run_replies s)\<rparr> in
     if command_tx ctl \<noteq> run_cmd_rx s
     then s\<lparr>run_replies := run_replies s @ [Awaiting], run_elsewhere := run_elsewhere s @ [rm_return payload]\<rparr>
     else if run_phase s = Dropped then s\<lparr>run_replies := run_replies s @ [Replied Panic]\<rparr>
     else s\<lparr>run_replies := run_replies s @ [Awaiting], run_cmds := run_cmds s @ [payload]\<rparr>)"

definition drop_senders :: "nat list \<Rightarrow> reply list \<Rightarrow> reply list" where
  "drop_senders ids rs = fold (\<lambda>i rs. rs[i := Replied Panic]) ids rs"

text \<open>
  A panic in a branch unwinds \<open>start\<close> and drops what the branch holds: the message it has taken (\<open>ids\<close>).
  The queues belong to the node and stay.
\<close>

definition start_unwinds :: "nat list \<Rightarrow> 't core_run \<Rightarrow> 't core_run" where
  "start_unwinds ids s = s\<lparr>run_phase := Idle, run_replies := drop_senders ids (run_replies s)\<rparr>"

text \<open>The owner drops the node, and with it both queues and the senders in them.\<close>

definition node_dropped :: "'t core_run \<Rightarrow> 't core_run" where
  "node_dropped s = s\<lparr>run_phase := Dropped, run_queries := [], run_cmds := [],
     run_replies := drop_senders (map rm_return (run_queries s) @ map rm_return (run_cmds s)) (run_replies s)\<rparr>"

text \<open>
  One \<open>select!\<close>: the branch that is taken, \<open>None\<close> if it is not ready. An error of the interface watcher does
  not match the pattern of its branch, which disables the branch until another one has been taken.
\<close>

datatype branch = QueryBranch | CmdBranch | LanBranch

fun start_turn :: "branch \<Rightarrow> 't core_run \<Rightarrow> 't core_run option" where
  "start_turn QueryBranch s = (if run_phase s \<noteq> Serving then None else (case run_queries s of
       [] \<Rightarrow> None
     | q # qs \<Rightarrow> let s' = s\<lparr>run_queries := qs\<rparr>; res = handle_query (rm_data q) in
         Some (if res = Panic then start_unwinds [rm_return q] s'
           else s'\<lparr>run_replies := (run_replies s)[rm_return q := Replied res], run_lan_on := True\<rparr>)))"
| "start_turn CmdBranch s = (if run_phase s \<noteq> Serving then None else (case run_cmds s of
       [] \<Rightarrow> None
     | c # cs \<Rightarrow> let s' = s\<lparr>run_cmds := cs\<rparr>; (res, new) = handle_command (rm_data c) in
         Some (if res = Panic then start_unwinds [rm_return c] s'
           else s'\<lparr>run_replies := (run_replies s)[rm_return c := Replied res], run_lan_on := True,
             run_tasks := run_tasks s @ new\<rparr>)))"
| "start_turn LanBranch s = (if run_phase s \<noteq> Serving \<or> \<not> run_lan_on s then None else
     (case lan_next (run_lan s) of
       None \<Rightarrow> None
     | Some (Ok n, lan) \<Rightarrow> Some (s\<lparr>run_lan := lan\<rparr>)
     | Some (Err e, lan) \<Rightarrow> Some (s\<lparr>run_lan := lan, run_lan_on := False\<rparr>)
     | Some (Panic, lan) \<Rightarrow> Some (start_unwinds [] (s\<lparr>run_lan := lan\<rparr>))))"

fun start_turns :: "branch list \<Rightarrow> 't core_run \<Rightarrow> 't core_run option" where
  "start_turns [] s = Some s"
| "start_turns (b # bs) s = (case start_turn b s of None \<Rightarrow> None | Some s' \<Rightarrow> start_turns bs s')"

text \<open>
  The node, its owner and the callers of the controllers \<open>C\<close>: any number of calls at any time, turns of
  the loop, and the owner starting, cancelling and dropping. The handlers never wait, so \<open>start\<close> is
  cancelled in its \<open>select!\<close> only, where no message has been taken.
\<close>

inductive core_step :: "core_controller set \<Rightarrow> 't core_run \<Rightarrow> 't core_run \<Rightarrow> bool" for C where
  call_query: "ctl \<in> C \<Longrightarrow> core_step C s (controller_query ctl q s)"
| call_command: "ctl \<in> C \<Longrightarrow> core_step C s (controller_command ctl c s)"
| turn: "start_turn b s = Some s' \<Longrightarrow> core_step C s s'"
| owner_starts: "run_phase s = Idle \<Longrightarrow> core_step C s (s\<lparr>run_phase := Serving, run_lan_on := True\<rparr>)"
| owner_cancels: "run_phase s = Serving \<Longrightarrow> core_step C s (s\<lparr>run_phase := Idle\<rparr>)"
| owner_drops: "run_phase s = Idle \<Longrightarrow> core_step C s (node_dropped s)"

inductive core_reachable :: "core_controller set \<Rightarrow> nat \<Rightarrow> nat \<Rightarrow> 't core_node \<Rightarrow> 't core_run \<Rightarrow> bool"
  for C qc cc node where
  core_start: "core_reachable C qc cc node (run_init qc cc node)"
| core_next: "core_reachable C qc cc node s \<Longrightarrow> core_step C s s' \<Longrightarrow> core_reachable C qc cc node s'"


subsection \<open>Who waits\<close>

definition waiting_ids :: "'t core_run \<Rightarrow> nat list" where
  "waiting_ids s = map rm_return (run_queries s) @ map rm_return (run_cmds s)"

definition awaits :: "'t core_run \<Rightarrow> nat \<Rightarrow> bool" where
  "awaits s i \<longleftrightarrow> i < length (run_replies s) \<and> run_replies s ! i = Awaiting"

text \<open>
  Every waiting call is in exactly one queue or elsewhere, each queue is in the order of the calls, and
  a dropped node has no queues.
\<close>

definition controller_ok :: "'t core_run \<Rightarrow> bool" where
  "controller_ok s \<longleftrightarrow> distinct (waiting_ids s @ run_elsewhere s) \<and>
     set (waiting_ids s) \<union> set (run_elsewhere s) = {i. awaits s i} \<and>
     sorted (map rm_return (run_queries s)) \<and> sorted (map rm_return (run_cmds s)) \<and>
     (run_phase s = Dropped \<longrightarrow> waiting_ids s = [])"

lemma update_nth: "j < length rs \<Longrightarrow> rs[i := x] ! j = (if i = j then x else rs ! j)"
  by (cases "i = j") simp_all

lemma drop_senders_length [simp]: "length (drop_senders ids rs) = length rs"
  unfolding drop_senders_def by (induction ids arbitrary: rs) simp_all

lemma drop_senders_nth:
  "i < length rs \<Longrightarrow> drop_senders ids rs ! i = (if i \<in> set ids then Replied Panic else rs ! i)"
  unfolding drop_senders_def by (induction ids arbitrary: rs) (simp_all add: nth_list_update)

lemma handle_query_Panic [simp]: "handle_query q = Panic"
  by (simp add: handle_query_def)

lemma handle_command_cases:
  "(\<exists>n. c = Discover n \<and> handle_command c = (Ok RespOk, [discover_task (unat n)])) \<or>
   (\<exists>name. c = SetName name \<and> handle_command c = (Panic, []))"
  by (cases c) simp_all

text \<open>A turn that takes a message answers its call and no other; a turn for an interface event answers none.\<close>

inductive_cases core_stepE: "core_step C s s'"

lemma query_turn_iff:
  "start_turn QueryBranch s = Some s' \<longleftrightarrow> run_phase s = Serving \<and>
     (\<exists>q qs. run_queries s = q # qs \<and> s' = start_unwinds [rm_return q] (s\<lparr>run_queries := qs\<rparr>))"
  by (auto split: list.split)

lemma set_name_turn:
  "run_phase s = Serving \<Longrightarrow> run_cmds s = c # cs \<Longrightarrow> rm_data c = SetName name \<Longrightarrow>
     start_turn CmdBranch s = Some (start_unwinds [rm_return c] (s\<lparr>run_cmds := cs\<rparr>))"
  by simp

lemma discover_turn:
  "run_phase s = Serving \<Longrightarrow> run_cmds s = c # cs \<Longrightarrow> rm_data c = Discover n \<Longrightarrow>
     start_turn CmdBranch s = Some (s\<lparr>run_cmds := cs, run_replies := (run_replies s)[rm_return c := Replied (Ok RespOk)],
       run_lan_on := True, run_tasks := run_tasks s @ [discover_task (unat n)]\<rparr>)"
  by simp

lemma lan_turn_fields:
  assumes "start_turn LanBranch s = Some s'"
  shows "run_queries s' = run_queries s" "run_cmds s' = run_cmds s" "run_elsewhere s' = run_elsewhere s"
    "run_replies s' = run_replies s" "run_tasks s' = run_tasks s" "run_phase s = Serving" "run_phase s' \<noteq> Dropped"
  using assms
  by (auto simp: start_unwinds_def drop_senders_def split: if_split_asm option.split_asm prod.split_asm outcome.split_asm)

text \<open>One message taken from a queue, whatever its reply.\<close>

definition answers :: "nat \<Rightarrow> 't core_run \<Rightarrow> 't core_run \<Rightarrow> bool" where
  "answers i s s' \<longleftrightarrow> run_elsewhere s' = run_elsewhere s \<and> length (run_replies s') = length (run_replies s) \<and>
     (\<forall>j < length (run_replies s). run_replies s' ! j \<noteq> Awaiting \<longleftrightarrow> j = i \<or> run_replies s ! j \<noteq> Awaiting) \<and>
     (\<forall>j < length (run_replies s). j \<noteq> i \<longrightarrow> run_replies s' ! j = run_replies s ! j) \<and>
     (run_queries s' = run_queries s \<and> (\<exists>c. run_cmds s = c # run_cmds s' \<and> rm_return c = i) \<or>
      run_cmds s' = run_cmds s \<and> (\<exists>q. run_queries s = q # run_queries s' \<and> rm_return q = i)) \<and>
     run_phase s = Serving \<and> run_phase s' \<noteq> Dropped"

lemma message_turn:
  assumes "b \<noteq> LanBranch" and "start_turn b s = Some s'"
  shows "\<exists>i. answers i s s'"
proof (cases b)
  case QueryBranch
  with assms(2) obtain q qs where "run_phase s = Serving" "run_queries s = q # qs"
      "s' = start_unwinds [rm_return q] (s\<lparr>run_queries := qs\<rparr>)"
    by (auto simp only: query_turn_iff)
  then show ?thesis
    by (intro exI [of _ "rm_return q"]) (auto simp: answers_def start_unwinds_def drop_senders_nth)
next
  case CmdBranch
  with assms(2) obtain c cs where c: "run_phase s = Serving" "run_cmds s = c # cs"
    by (auto split: if_split_asm list.split_asm)
  from handle_command_cases [of "rm_data c"] assms(2) CmdBranch c show ?thesis
    by (intro exI [of _ "rm_return c"]) (auto simp: answers_def start_unwinds_def drop_senders_nth update_nth split: if_split_asm)
qed (use assms(1) in simp)

lemma answers_awaits: "answers i s s' \<Longrightarrow> awaits s' j \<longleftrightarrow> awaits s j \<and> j \<noteq> i"
  by (auto simp: answers_def awaits_def)

lemma answers_taken:
  assumes "answers i s s'"
  obtains xs ys where "waiting_ids s = xs @ i # ys" "waiting_ids s' = xs @ ys"
proof -
  from assms consider c where "run_queries s' = run_queries s" "run_cmds s = c # run_cmds s'" "rm_return c = i"
    | q where "run_cmds s' = run_cmds s" "run_queries s = q # run_queries s'" "rm_return q = i"
    by (auto simp: answers_def)
  then show thesis
  proof cases
    case 1
    then show ?thesis using that [of "map rm_return (run_queries s)" "map rm_return (run_cmds s')"]
      by (simp add: waiting_ids_def)
  next
    case 2
    then show ?thesis using that [of "[]" "waiting_ids s'"] by (simp add: waiting_ids_def)
  qed
qed

lemma answers_ok:
  assumes "controller_ok s" "answers i s s'"
  shows "controller_ok s'" "awaits s i"
proof -
  obtain xs ys where w: "waiting_ids s = xs @ i # ys" "waiting_ids s' = xs @ ys"
    using assms(2) by (rule answers_taken)
  have else_eq: "run_elsewhere s' = run_elsewhere s" using assms(2) by (simp add: answers_def)
  have old: "distinct (waiting_ids s @ run_elsewhere s)" "{j. awaits s j} = set (waiting_ids s) \<union> set (run_elsewhere s)"
    using assms(1) by (simp_all add: controller_ok_def)
  then show "awaits s i" using w by auto
  have "distinct (waiting_ids s' @ run_elsewhere s')" using old(1) by (simp add: w else_eq)
  moreover have "{j. awaits s' j} = {j. awaits s j} - {i}" using answers_awaits [OF assms(2)] by auto
  then have "set (waiting_ids s') \<union> set (run_elsewhere s') = {j. awaits s' j}"
    unfolding old(2) using old(1) by (auto simp: w else_eq)
  moreover have "sorted (map rm_return (run_queries s'))" "sorted (map rm_return (run_cmds s'))"
    using assms by (auto simp: controller_ok_def answers_def)
  ultimately show "controller_ok s'" using assms(2) by (simp add: controller_ok_def answers_def)
qed

lemma awaits_append:
  "run_replies s' = run_replies s @ [r] \<Longrightarrow>
     {i. awaits s' i} = {i. awaits s i} \<union> (if r = Awaiting then {length (run_replies s)} else {})"
  by (auto simp: awaits_def nth_append less_Suc_eq)

lemma pushed_ok:
  assumes "controller_ok s" and "run_replies s' = run_replies s @ [r]"
    and "run_queries s' = run_queries s @ qs" "run_cmds s' = run_cmds s @ cs" "run_elsewhere s' = run_elsewhere s @ es"
    and "map rm_return qs @ map rm_return cs @ es = (if r = Awaiting then [length (run_replies s)] else [])"
    and "run_phase s' = Dropped \<longrightarrow> waiting_ids s' = []"
  shows "controller_ok s'"
proof -
  have small: "i < length (run_replies s)" if "i \<in> set (waiting_ids s @ run_elsewhere s)" for i
    using assms(1) that by (auto simp: controller_ok_def awaits_def)
  then have fresh: "length (run_replies s) \<notin> set (waiting_ids s @ run_elsewhere s)" by blast
  have new: "set (map rm_return qs @ map rm_return cs @ es) = (if r = Awaiting then {length (run_replies s)} else {})"
    unfolding assms(6) by simp
  have old: "set (waiting_ids s @ run_elsewhere s) = {i. awaits s i}"
    using assms(1) by (simp add: controller_ok_def)
  have "set (waiting_ids s' @ run_elsewhere s') = {i. awaits s' i}"
    unfolding awaits_append [OF assms(2)] old [symmetric] new [symmetric]
    by (auto simp: waiting_ids_def assms(3-5))
  moreover have "distinct (waiting_ids s' @ run_elsewhere s')"
  proof -
    have "mset (waiting_ids s' @ run_elsewhere s') =
        mset (waiting_ids s @ run_elsewhere s @ map rm_return qs @ map rm_return cs @ es)"
      by (simp add: waiting_ids_def assms(3-5))
    moreover have "distinct (waiting_ids s @ run_elsewhere s @ map rm_return qs @ map rm_return cs @ es)"
      unfolding assms(6) using assms(1) fresh by (auto simp: controller_ok_def)
    ultimately show ?thesis by (metis mset_eq_imp_distinct_iff)
  qed
  moreover have "sorted (map rm_return (run_queries s'))" "sorted (map rm_return (run_cmds s'))"
  proof -
    have "length (map rm_return qs) \<le> 1" "length (map rm_return cs) \<le> 1"
      using arg_cong [OF assms(6), of length] by (auto split: if_split_asm)
    then have short: "sorted (map rm_return qs)" "sorted (map rm_return cs)" by (simp_all add: sorted01)
    have last: "i \<le> j" if "i \<in> set (waiting_ids s)" "j \<in> set (map rm_return qs) \<union> set (map rm_return cs)" for i j
    proof -
      have "j \<in> set (map rm_return qs @ map rm_return cs @ es)" using that(2) by auto
      then have "j = length (run_replies s)" unfolding new by (simp split: if_split_asm)
      with small [of i] that(1) show ?thesis by simp
    qed
    show "sorted (map rm_return (run_queries s'))" "sorted (map rm_return (run_cmds s'))"
      using assms(1) short last
      by (simp_all add: controller_ok_def sorted_append assms(3,4) waiting_ids_def)
  qed
  ultimately show ?thesis using assms(7) by (simp add: controller_ok_def)
qed

lemma call_ok:
  assumes "controller_ok s"
  shows "controller_ok (controller_query ctl q s)" "controller_ok (controller_command ctl c s)"
proof -
  let ?n = "length (run_replies s)"
  have dropped: "waiting_ids s = []" if "run_phase s = Dropped"
    using assms that by (simp add: controller_ok_def)
  consider "query_tx ctl \<noteq> run_query_rx s" | "query_tx ctl = run_query_rx s" "run_phase s = Dropped"
    | "query_tx ctl = run_query_rx s" "run_phase s \<noteq> Dropped" by blast
  then show "controller_ok (controller_query ctl q s)"
  proof cases
    case 1
    then show ?thesis using dropped
      by (intro pushed_ok [OF assms, of _ Awaiting "[]" "[]" "[?n]"])
        (auto simp: controller_query_def Let_def waiting_ids_def)
  next
    case 2
    then show ?thesis using dropped
      by (intro pushed_ok [OF assms, of _ "Replied Panic" "[]" "[]" "[]"])
        (auto simp: controller_query_def Let_def waiting_ids_def)
  next
    case 3
    then show ?thesis
      by (intro pushed_ok [OF assms, of _ Awaiting "[\<lparr>rm_data = q, rm_return = ?n\<rparr>]" "[]" "[]"])
        (auto simp: controller_query_def Let_def)
  qed
  consider "command_tx ctl \<noteq> run_cmd_rx s" | "command_tx ctl = run_cmd_rx s" "run_phase s = Dropped"
    | "command_tx ctl = run_cmd_rx s" "run_phase s \<noteq> Dropped" by blast
  then show "controller_ok (controller_command ctl c s)"
  proof cases
    case 1
    then show ?thesis using dropped
      by (intro pushed_ok [OF assms, of _ Awaiting "[]" "[]" "[?n]"])
        (auto simp: controller_command_def Let_def waiting_ids_def)
  next
    case 2
    then show ?thesis using dropped
      by (intro pushed_ok [OF assms, of _ "Replied Panic" "[]" "[]" "[]"])
        (auto simp: controller_command_def Let_def waiting_ids_def)
  next
    case 3
    then show ?thesis
      by (intro pushed_ok [OF assms, of _ Awaiting "[]" "[\<lparr>rm_data = c, rm_return = ?n\<rparr>]" "[]"])
        (auto simp: controller_command_def Let_def)
  qed
qed

lemma dropped_ok:
  assumes "controller_ok s"
  shows "controller_ok (node_dropped s)" "awaits (node_dropped s) i \<longleftrightarrow> i \<in> set (run_elsewhere s)"
proof -
  have split: "awaits s i \<longleftrightarrow> i \<in> set (waiting_ids s) \<or> i \<in> set (run_elsewhere s)"
    "\<not> (i \<in> set (waiting_ids s) \<and> i \<in> set (run_elsewhere s))" for i
    using assms by (auto simp: controller_ok_def)
  have "awaits (node_dropped s) i \<longleftrightarrow> awaits s i \<and> i \<notin> set (waiting_ids s)" for i
    by (auto simp: awaits_def node_dropped_def drop_senders_nth waiting_ids_def split: if_split_asm)
  then show aw: "awaits (node_dropped s) i \<longleftrightarrow> i \<in> set (run_elsewhere s)" for i
    using split by blast
  show "controller_ok (node_dropped s)"
    using assms unfolding controller_ok_def aw by (simp add: node_dropped_def waiting_ids_def)
qed

lemma phase_ok:
  "controller_ok s \<Longrightarrow> p \<noteq> Dropped \<Longrightarrow> controller_ok (s\<lparr>run_phase := p, run_lan_on := l\<rparr>)"
  "controller_ok s \<Longrightarrow> p \<noteq> Dropped \<Longrightarrow> controller_ok (s\<lparr>run_phase := p\<rparr>)"
  by (simp_all add: controller_ok_def waiting_ids_def awaits_def)

lemma turn_ok:
  assumes "controller_ok s" and "start_turn b s = Some s'"
  shows "controller_ok s'"
proof (cases "b = LanBranch")
  case True
  with lan_turn_fields [of s s'] assms show ?thesis
    by (simp add: controller_ok_def waiting_ids_def awaits_def del: start_turn.simps)
next
  case False
  with message_turn [OF _ assms(2)] answers_ok(1) [OF assms(1)] show ?thesis by blast
qed

lemma controller_reachable_ok: "core_reachable C qc cc node s \<Longrightarrow> controller_ok s"
proof (induction rule: core_reachable.induct)
  case core_start
  show ?case by (simp add: controller_ok_def run_init_def waiting_ids_def awaits_def)
next
  case (core_next s s')
  from core_next.hyps(2) core_next.IH show ?case
    by (cases rule: core_step.cases) (auto simp: call_ok phase_ok dropped_ok(1) intro: turn_ok)
qed









lemma exec_discover_task:
  "exec (discover_task n) m = (Done (), m\<lparr>discovery_channel := discovery_channel m @ replicate n PresenceRequest\<rparr>)"
proof (induction n arbitrary: m)
  case (Suc n)
  then show ?case by (simp add: request_presence_def send_discovery_def)
qed simp

text \<open>A run of turns that takes commands to discover, with interface events in between.\<close>

definition span_of :: "app_cmd returnable_message \<Rightarrow> nat" where
  "span_of c = (case rm_data c of Discover n \<Rightarrow> unat n | SetName _ \<Rightarrow> 0)"

definition asks_discover :: "app_cmd returnable_message \<Rightarrow> bool" where
  "asks_discover c = (case rm_data c of Discover _ \<Rightarrow> True | SetName _ \<Rightarrow> False)"

lemma discover_turns:
  assumes "start_turns bs s = Some s'" and "set bs \<subseteq> {CmdBranch, LanBranch}"
    and "run_cmds s = ds @ rest" and "list_all asks_discover ds" and "length (filter (\<lambda>b. b = CmdBranch) bs) = length ds"
  shows "run_cmds s' = rest \<and> run_queries s' = run_queries s \<and> run_elsewhere s' = run_elsewhere s \<and>
    run_tasks s' = run_tasks s @ map (\<lambda>c. discover_task (span_of c)) ds \<and>
    run_replies s' = fold (\<lambda>c rs. rs[rm_return c := Replied (Ok RespOk)]) ds (run_replies s)"
  using assms
proof (induction bs arbitrary: s ds)
  case (Cons b bs)
  obtain t where t: "start_turn b s = Some t" "start_turns bs t = Some s'"
    using Cons.prems(1) by (auto split: option.split_asm)
  show ?case
  proof (cases "b = LanBranch")
    case True
    with lan_turn_fields [of s t] t Cons.prems Cons.IH [OF t(2), of ds] show ?thesis
      by (simp del: start_turn.simps)
  next
    case False
    with Cons.prems(2,5) obtain c ds' where b: "b = CmdBranch" and ds: "ds = c # ds'" by (cases ds) auto
    obtain n where n: "rm_data c = Discover n"
      using Cons.prems(4) ds by (auto simp: asks_discover_def split: app_cmd.split_asm)
    have "run_phase s = Serving" using t(1) b by (auto split: if_split_asm)
    with discover_turn [of s c "ds' @ rest" n] t(1) b ds n Cons.prems(3) have
      "t = s\<lparr>run_cmds := ds' @ rest, run_replies := (run_replies s)[rm_return c := Replied (Ok RespOk)],
         run_lan_on := True, run_tasks := run_tasks s @ [discover_task (unat n)]\<rparr>"
      by (simp del: start_turn.simps)
    with Cons.IH [OF t(2), of ds'] Cons.prems b ds n show ?thesis by (simp add: span_of_def)
  qed
qed simp

lemma discover_turns_possible:
  "run_phase s = Serving \<Longrightarrow> run_cmds s = ds @ rest \<Longrightarrow> list_all asks_discover ds \<Longrightarrow>
     \<exists>s'. start_turns (replicate (length ds) CmdBranch) s = Some s' \<and> run_phase s' = Serving"
proof (induction ds arbitrary: s)
  case (Cons c ds)
  obtain n where n: "rm_data c = Discover n"
    using Cons.prems(3) by (auto simp: asks_discover_def split: app_cmd.split_asm)
  from discover_turn [OF Cons.prems(1) _ n, of "ds @ rest"] Cons.prems obtain t where
    "start_turn CmdBranch s = Some t" "run_phase t = Serving" "run_cmds t = ds @ rest" by auto
  with Cons.IH [of t] Cons.prems(3) show ?case by (simp del: start_turn.simps)
qed simp

lemma replies_fold_nth:
  "i < length rs \<Longrightarrow> fold (\<lambda>c rs. rs[rm_return c := x]) ds rs ! i = (if i \<in> rm_return ` set ds then x else rs ! i)"
proof (induction ds arbitrary: rs)
  case (Cons c ds)
  then show ?case by (auto simp: update_nth)
qed simp

lemma replies_fold_length: "length (fold (\<lambda>c rs. rs[rm_return c := x]) ds rs) = length rs"
  by (induction ds arbitrary: rs) simp_all

lemma turns_ok: "controller_ok s \<Longrightarrow> start_turns bs s = Some s' \<Longrightarrow> controller_ok s'"
  by (induction bs arbitrary: s) (auto split: option.split_asm intro: turn_ok simp del: start_turn.simps)

lemma unwinding_turn:
  assumes "controller_ok s" "start_turn b s = Some s'"
    and "b = QueryBranch \<or> b = CmdBranch \<and> \<not> asks_discover (hd (run_cmds s))"
  shows "run_phase s' = Idle \<and> run_tasks s' = run_tasks s \<and>
    (\<exists>i. awaits s i \<and> run_replies s' = (run_replies s)[i := Replied Panic] \<and>
      set (waiting_ids s') = set (waiting_ids s) - {i})"
proof -
  have "\<exists>i t. s' = start_unwinds [i] t \<and> run_replies t = run_replies s \<and> run_tasks t = run_tasks s \<and>
      (\<exists>xs ys. waiting_ids s = xs @ i # ys \<and> waiting_ids t = xs @ ys)"
    using assms(3)
  proof
    assume "b = QueryBranch"
    with assms(2) obtain q qs where "run_queries s = q # qs" "s' = start_unwinds [rm_return q] (s\<lparr>run_queries := qs\<rparr>)"
      by (auto simp only: query_turn_iff)
    then show ?thesis
      by (intro exI [of _ "rm_return q"] exI [of _ "s\<lparr>run_queries := qs\<rparr>"])
        (simp add: waiting_ids_def, metis append_Nil)
  next
    assume b: "b = CmdBranch \<and> \<not> asks_discover (hd (run_cmds s))"
    with assms(2) obtain c cs where c: "run_phase s = Serving" "run_cmds s = c # cs"
      by (auto split: if_split_asm list.split_asm)
    with b obtain name where "rm_data c = SetName name" by (auto simp: asks_discover_def split: app_cmd.split_asm)
    with set_name_turn [OF c] b assms(2) have "s' = start_unwinds [rm_return c] (s\<lparr>run_cmds := cs\<rparr>)"
      by (simp del: start_turn.simps)
    then show ?thesis using c
      by (intro exI [of _ "rm_return c"] exI [of _ "s\<lparr>run_cmds := cs\<rparr>"])
        (auto simp: waiting_ids_def)
  qed
  then obtain i t xs ys where t: "s' = start_unwinds [i] t" "run_replies t = run_replies s" "run_tasks t = run_tasks s"
      "waiting_ids s = xs @ i # ys" "waiting_ids t = xs @ ys" by blast
  have "waiting_ids s' = xs @ ys" using t by (simp add: start_unwinds_def waiting_ids_def)
  moreover have "distinct (xs @ i # ys)" "awaits s i" using assms(1) t(4) by (auto simp: controller_ok_def)
  ultimately show ?thesis
    using t by (intro conjI exI [of _ i]) (auto simp: start_unwinds_def drop_senders_def)
qed

lemma exec_discover_tasks:
  "discovery_channel (fold (\<lambda>p m. snd (exec p m)) (map (\<lambda>c. discover_task (span_of c)) ds) m) =
     discovery_channel m @ replicate (sum_list (map span_of ds)) PresenceRequest"
  by (induction ds arbitrary: m) (simp_all add: exec_discover_task replicate_add)

subsection \<open>The properties\<close>


definition sample_node :: "totp_state core_node" where
  "sample_node = \<lparr>cn_conf = sample_config, cn_store = [], cn_p2p = test_manager,
     cn_lan = \<lparr>lm_lan = {}, lm_watch = \<lparr>iw_nets = [], iw_events = [Err (IoError ''net'')]\<rparr>\<rparr>\<rparr>"

definition sample_controller :: core_controller where
  "sample_controller = \<lparr>query_tx = 1, command_tx = 2\<rparr>"

text \<open>Three calls, before the node is started.\<close>

definition sample_calls :: "totp_state core_run" where
  "sample_calls = controller_query sample_controller GetConf (controller_command sample_controller (SetName [])
     (controller_command sample_controller (Discover 3) (run_init 1 2 sample_node)))"

definition sample_run :: "totp_state core_run" where
  "sample_run = sample_calls\<lparr>run_phase := Serving, run_lan_on := True\<rparr>"


lemma sample_calls_phase: "run_phase sample_calls = Idle"
  by (simp add: sample_calls_def controller_query_def controller_command_def sample_controller_def run_init_def)

lemma sample_run_reachable: "core_reachable {sample_controller} 1 2 sample_node sample_run"
  unfolding sample_run_def
proof (rule core_next [OF _ owner_starts [OF sample_calls_phase]])
  show "core_reachable {sample_controller} 1 2 sample_node sample_calls"
    unfolding sample_calls_def
    by (intro core_start core_next [OF _ call_query] core_next [OF _ call_command]) simp_all
qed

lemma sample_run_fields:
  "run_phase sample_run = Serving" "run_queries sample_run = [\<lparr>rm_data = GetConf, rm_return = 2\<rparr>]"
  "run_cmds sample_run = [\<lparr>rm_data = Discover 3, rm_return = 0\<rparr>] @ [\<lparr>rm_data = SetName [], rm_return = 1\<rparr>]"
  "run_tasks sample_run = []" "run_replies sample_run = [Awaiting, Awaiting, Awaiting]"
  by (simp_all add: sample_run_def sample_calls_def controller_query_def controller_command_def sample_controller_def
      run_init_def)


text \<open>
  C27. What the calls do. While \<open>start\<close> runs, the commands to discover at the head of the queue can be
  taken, and in every run of turns that takes them, with interface events (also errors) in between,
  each is answered with success, every other waiting call goes on waiting, and one task per command is
  started, in order; together these tasks send as many presence requests as the commands asked for.
  A renaming or a query that is taken next ends \<open>start\<close> by a panic, which fails that call alone and
  leaves the rest of the queues to the owner of the node.
\<close>

theorem controller_calls:
  fixes s s' :: "'t core_run" and m :: "'t manager"
  assumes "core_reachable C qc cc node s" and "run_phase s = Serving"
    and "run_cmds s = ds @ rest" and "list_all asks_discover ds"
    and "start_turns bs s = Some s'" and "set bs \<subseteq> {CmdBranch, LanBranch}"
    and "length (filter (\<lambda>b. b = CmdBranch) bs) = length ds"
  shows "start_turns (replicate (length ds) CmdBranch) s \<noteq> None \<and>
    run_cmds s' = rest \<and> run_queries s' = run_queries s \<and>
    (\<forall>c \<in> set ds. run_replies s' ! rm_return c = Replied (Ok RespOk)) \<and>
    {i. awaits s' i} = {i. awaits s i} - rm_return ` set ds \<and>
    (\<exists>new. run_tasks s' = run_tasks s @ new \<and> length new = length ds \<and>
       discovery_channel (fold (\<lambda>p m. snd (exec p m)) new m) =
         discovery_channel m @ replicate (sum_list (map span_of ds)) PresenceRequest) \<and>
    (\<forall>b s''. start_turn b s' = Some s'' \<and> (b = QueryBranch \<or> b = CmdBranch \<and> \<not> asks_discover (hd rest)) \<longrightarrow>
       run_phase s'' = Idle \<and> run_tasks s'' = run_tasks s' \<and>
       (\<exists>i. awaits s' i \<and> run_replies s'' = (run_replies s')[i := Replied Panic] \<and>
         set (waiting_ids s'') = set (waiting_ids s') - {i}))"
proof -
  have ok: "controller_ok s" by (rule controller_reachable_ok [OF assms(1)])
  have bounds: "rm_return c < length (run_replies s)" if "c \<in> set ds" for c
    using ok that assms(3) by (auto simp: controller_ok_def awaits_def waiting_ids_def)
  note after = discover_turns [OF assms(5,6,3,4,7)]
  have len: "length (run_replies s') = length (run_replies s)"
    using after replies_fold_length by simp
  have replies: "run_replies s' ! i = (if i \<in> rm_return ` set ds then Replied (Ok RespOk) else run_replies s ! i)"
    if "i < length (run_replies s)" for i
    using after replies_fold_nth [OF that, of "Replied (Ok RespOk)" ds] by simp
  have "{i. awaits s' i} = {i. awaits s i} - rm_return ` set ds"
    using replies len by (auto simp: awaits_def split: if_split_asm)
  moreover have "\<forall>c \<in> set ds. run_replies s' ! rm_return c = Replied (Ok RespOk)"
    using bounds replies by simp
  moreover have "\<exists>new. run_tasks s' = run_tasks s @ new \<and> length new = length ds \<and>
      discovery_channel (fold (\<lambda>p m. snd (exec p m)) new m) =
        discovery_channel m @ replicate (sum_list (map span_of ds)) PresenceRequest"
    using after exec_discover_tasks by (intro exI [of _ "map (\<lambda>c. discover_task (span_of c)) ds"]) simp
  moreover have "start_turns (replicate (length ds) CmdBranch) s \<noteq> None"
    using discover_turns_possible [OF assms(2-4)] by auto
  moreover note unwinding_turn [OF turns_ok [OF ok assms(5)]]
  ultimately show ?thesis using after by blast
qed

theorem controller_calls_witness:
  "\<exists>s'. start_turns [CmdBranch] sample_run = Some s' \<and> run_replies s' ! 0 = Replied (Ok RespOk) \<and>
     {i. awaits s' i} = {1, 2} \<and>
     (\<forall>s''. start_turn CmdBranch s' = Some s'' \<longrightarrow> run_phase s'' = Idle)"
proof -
  let ?ds = "[\<lparr>rm_data = Discover 3, rm_return = 0 :: nat\<rparr>]"
  have ds: "list_all asks_discover ?ds" by (simp add: asks_discover_def)
  obtain s' where s': "start_turns [CmdBranch] sample_run = Some s'"
    using discover_turns_possible [OF sample_run_fields(1,3) ds] by auto
  have "{i. awaits sample_run i} = {0, 1, 2}" by (auto simp: awaits_def sample_run_fields nth_Cons split: nat.split_asm)
  with controller_calls [OF sample_run_reachable sample_run_fields(1,3) ds s', of test_manager] show ?thesis
    by (intro exI [of _ s']) (auto simp: s' asks_discover_def simp del: start_turn.simps start_turns.simps)
qed

end
