(* ===== verification/Spec2Isabelle.thy ===== *)
theory Spec2Isabelle
  imports Codec_Tests Decoding Transport Channels Connection Typing Controller
begin

text \<open>
  \<^bold>\<open>flydrop: pairing, discovery and connection of devices on a local network\<close>

  \<^bold>\<open>The program.\<close> The repository has a p2p crate (\<^verbatim>\<open>crate/p2p/src\<close>) and an application core
  (\<^verbatim>\<open>core/src\<close>). A node keeps a list of devices it was paired with, each with a secret from which both
  sides derive one-time passwords. It looks for them by multicast: a presence request asks all nodes
  to announce themselves, a presence response carries a node's name, type, identifier and address.
  A paired device that was seen can be connected to: client and host prove to each other, over
  TCP, that they know the current password, and then exchange the application's data. The manager
  keeps three concurrent collections (known, discovered, connected), an event loop feeds it with what
  the network brings, and each connection has a task of its own. The core loads the configuration
  and the secrets, starts a manager and serves the user interface.

  \<^bold>\<open>Theories and sources.\<close> Each theory imports the ones it calls.
  \<^item> \<open>Prelude\<close>: outcomes of Rust calls (value, error, panic), state passing, machine integers,
    big-endian words; the crates \<^verbatim>\<open>bytes\<close>/\<^verbatim>\<open>byteorder\<close> as the record \<open>platform\<close> with the laws
    \<open>bytes_crate\<close>.
  \<^item> \<open>Text\<close>, \<open>Net_Addr\<close>: what the program uses of the standard library: UTF-8, IP and socket addresses
    with their text form and its parser.
  \<^item> \<open>Err\<close>: the error types of \<^verbatim>\<open>crate/p2p/src/err.rs\<close> and \<^verbatim>\<open>core/src/err.rs\<close>.
  \<^item> \<open>Pairing\<close>: \<^verbatim>\<open>pairing.rs\<close> and \<^verbatim>\<open>hmac.rs\<close> over the crates \<^verbatim>\<open>totp_rs\<close> and \<^verbatim>\<open>ring\<close> (locales \<open>totp_crate\<close>,
    \<open>ring_crate\<close>); \<open>Reference_Crypto\<close> satisfies these interfaces by SHA-256, HMAC, base 32 and TOTP.
  \<^item> \<open>Peer\<close>: \<^verbatim>\<open>peer/id.rs\<close>, the data of \<^verbatim>\<open>peer/peer.rs\<close>, \<^verbatim>\<open>event.rs\<close>: identifiers, identities, metadata,
    candidates, peers, events.
  \<^item> \<open>Proto\<close>: \<^verbatim>\<open>proto.rs\<close>: the framing and the two codecs, with the layouts of \<^verbatim>\<open>doc/Protocol.md\<close> as
    reference (\<open>frame_wire\<close>, \<open>connection_payload\<close>, \<open>discovery_payload\<close>); the locale \<open>frame_codec\<close> is what a
    user of a codec relies on.
  \<^item> \<open>Decoding\<close>: a reference decoder that reads fields at fixed positions, which the codecs equal;
    \<open>Codec_Tests\<close>: the unit tests of \<^verbatim>\<open>proto.rs\<close> and \<^verbatim>\<open>hmac.rs\<close>, as programs over the codecs.
  \<^item> \<open>Async\<close>: the state of \<open>P2pManager\<close> and the trees of effects that model \<open>async fn\<close>s, with three
    semantics: uninterrupted (\<open>exec\<close>), against a script of answers (\<open>runs\<close>), and interleaved (\<open>System\<close>).
  \<^item> \<open>Handshake\<close>: \<^verbatim>\<open>net.rs\<close> (\<open>connect\<close>, \<open>accept\<close>), \<open>Peer::new\<close> and \<open>get_peer_candidate\<close>.
  \<^item> \<open>Session\<close>: two programs over a byte stream in pieces of any size; the locale \<open>dialogue\<close> shows that
    two scripts that fit together always run to their ends, and the locale \<open>paired_session\<close> that the two
    sides of a handshake do.
  \<^item> \<open>Manager\<close>: the methods of \<^verbatim>\<open>manager.rs\<close>; the abstract peer book and its refinement.
  \<^item> \<open>Transport\<close>: the task of a connection (\<open>handler\<close> of \<^verbatim>\<open>peer/peer.rs\<close>) and the bytes it copies, over
    \<^verbatim>\<open>tokio::io::copy\<close> as the locale \<open>io_copy\<close>.
  \<^item> \<open>Event_Loop\<close>: \<^verbatim>\<open>event_loop.rs\<close>.
  \<^item> \<open>Connection\<close>: \<open>connect_to_peer\<close> against the task that accepts the connection (locale
    \<open>paired_connection\<close>, which is a \<open>dialogue\<close>).
  \<^item> \<open>Discovery\<close>: \<^verbatim>\<open>discovery.rs\<close> and \<open>P2pManager::new\<close>.
  \<^item> \<open>Channels\<close>: the two bounded channels between the discovery task and the event loop.
  \<^item> \<open>System\<close>: a node with its event loop and all its tasks interleaved; the rely/guarantee rule
    \<open>shared_manager\<close> and its interpretation with the pairing invariant; \<open>Typing\<close>: the messages such a
    node sends.
  \<^item> \<open>Core\<close>: \<^verbatim>\<open>conf.rs\<close>, \<^verbatim>\<open>secret.rs\<close>, \<^verbatim>\<open>lan.rs\<close>, \<^verbatim>\<open>plat.rs\<close> and the construction of a node of \<^verbatim>\<open>node.rs\<close>, over
    the crates \<^verbatim>\<open>keyring\<close> and \<^verbatim>\<open>serde_json\<close> (locales \<open>keyring_crate\<close>, \<open>json_crate\<close>); \<open>Controller\<close>: the running node of
    \<^verbatim>\<open>node.rs\<close>, its queues and the calls of its controller, with the owner of the node left open.

  \<^bold>\<open>How code becomes definitions.\<close> A buffer-changing function is a \<open>call\<close> that threads the buffer. An
  \<open>async fn\<close> is a \<open>prog\<close>; every operation on a concurrent map, set or channel of the manager is one
  \<open>Atomic\<close> effect, so two in a row can be interrupted. A panic is the outcome \<open>Panic\<close> or the tree \<open>Crash\<close>.
  Integers that can overflow are words, with the overflow checks of a debug build as a parameter. The
  operating system, the peers and the clock answer as they like; third-party code is a parameter with
  documented behaviour as named hypotheses, and each interface is interpreted by an instance. A
  channel is the list of what was sent on it, except in \<open>Channels\<close>, where it has its capacity, and the
  unbounded view is shown to be right as long as both tasks run.

  \<^bold>\<open>What is shown.\<close>
  \<^item> Wire format: round trips, equality of both decoders with the reference on every buffer, reassembly
    from chunks of any size, termination of draining a buffer, behaviour at the 16-bit length limit,
    that a cut-off payload makes the decoders panic, and that the repository's tests pass.
  \<^item> Handshake: the exact exchanges in which either side succeeds, what a failure tells the other side,
    when it panics, a bound on its length, and that two paired nodes always complete it within one time
    window; that the configured clock tolerance does not apply.
  \<^item> Connection: without timeouts and closed connections, two paired nodes always end up in each
    other's connected sets; the transport delivers
    in order and reports its end once; closing one direction cuts off the other.
  \<^item> Manager: refinement of the peer book, every outcome of connecting, finality of a discovery.
  \<^item> Event loop and discovery: what is recorded, answered, forwarded and swallowed; one malformed
    datagram stops the node; the bounded channels lose nothing, but a flood of requests can block
    both tasks for ever.
  \<^item> Interleaving: only paired peers are ever known, discovered, connected or reported, each under its own
    identifier, whatever the schedule; every message sent fits its format; discovered entries are
    permanent; two races are exhibited.
  \<^item> Core: what of the configuration and the identity survives storage, what a started node knows, that
    the calls of its controller are accounted for under every behaviour of the node's owner and what
    the calls do, and that the identifier it derives is not one the protocol can carry.
  \<^item> Below: a presence exchange between two nodes from bytes to the application's event, and the
    whole way from two started managers to a connection and its end.

  \<^bold>\<open>Bounds.\<close> Draining a buffer (\<open>consume\<close>) is a partial function, shown to return on every input. A handshake
  has at most 6 effects as a client and 8 as a host; a session of both takes at most 1400 steps, a
  hundred per effect, which covers the at most 78 bytes each effect puts on the wire; with the effects
  around it a connection takes a hundred steps for each of 20 effects and of the addresses that do not
  answer. The transport loop goes round at most three times. The channels hold 1024 events. The
  messages of a datagram are decoded with its length as fuel, since each consumes bytes.

  \<^bold>\<open>Not modelled.\<close> Logging; the read guard that \<open>connect_to_peer\<close> holds on the candidate while it connects: it
  changes nothing that others see, but an insertion into the same shard of the map waits for it, and
  on a runtime of one thread that wait would not end; timeouts and closed connections in the
  executions of both sides together (\<open>Session\<close>, \<open>Connection\<close>), which the theorems about scripts cover for each
  side; what the stream of datagrams gives after an error; \<open>Node::handle_event\<close>, whose argument has an empty
  type, and the channel of \<open>CoreEvent\<close>s, on which nothing is sent; \<open>mock_store\<close>, which replaces the
  keyring that is a parameter here; the integration tests, whose walk is stated as a theorem below;
  build files and the PowerShell script.
\<close>

subsection \<open>A presence exchange\<close>

lemma datagram_event:
  assumes "bytes_crate P" and "discovery_ok P e"
  shows "datagram P (snd (discovery_encode P e [])) src = [Network (Some (Ok (e, src))) True]"
proof -
  let ?bs = "snd (discovery_encode P e [])"
  have decode: "discovery_decode P ?bs = (Ok (Some e), [])" "?bs \<noteq> []"
    using bytes_crate.discovery_encode_wire [OF assms, of "[]"] bytes_crate.discovery_decode_wire [OF assms, of "[]"]
    by simp_all
  have "discovery_decode P [] = (Ok None, [])"
    by (simp add: discovery_decode_def header_decode_def sbind_def sret_def)
  with decode show ?thesis by (cases "length ?bs") (simp_all add: datagram_def)
qed

text \<open>
  Both managers after the exchange: the asked node has sent its metadata, the asking one has handled it.
\<close>

lemma exchange_managers:
  fixes A B :: "'t manager" and R :: ring_api and addr_a addr_b :: socket_addr
  assumes "bytes_crate P" and "discovery_ok P (PresenceResponse (m_metadata B))" and "m_id A \<noteq> pm_id (m_metadata B)"
  defines "request \<equiv> snd (discovery_encode P PresenceRequest [])"
  defines "B' \<equiv> fst (loop_run R (m_id B)
    (loop_feed (start (Ok addr_b) (datagram P request addr_a))) B)"
  defines "answer \<equiv> snd (discovery_encode P (last (discovery_channel B')) [])"
  defines "A' \<equiv> fst (loop_run R (m_id A) (loop_feed (start (Ok addr_a)
    (Broadcast (Some PresenceRequest) (Ok ()) # datagram P answer addr_b))) A)"
  shows "B' = B\<lparr>discovery_channel := discovery_channel B @ [PresenceResponse (m_metadata B)]\<rparr>"
    and "A' = snd (exec (handle_peer_discovered (m_metadata B)) A)"
proof -
  have req: "datagram P request addr_a = [Network (Some (Ok (PresenceRequest, addr_a))) True]"
    unfolding request_def using assms(1) by (rule datagram_event) simp
  show B': "B' = B\<lparr>discovery_channel := discovery_channel B @ [PresenceResponse (m_metadata B)]\<rparr>"
    by (simp add: B'_def req start_Ok loop_feed_def discovery_init_def exec_methods get_metadata_def Let_def)
  have ans: "datagram P answer addr_b = [Network (Some (Ok (PresenceResponse (m_metadata B), addr_b))) True]"
    unfolding answer_def B' using assms(1,2) by (simp add: datagram_event)
  show "A' = snd (exec (handle_peer_discovered (m_metadata B)) A)"
    using assms(3) by (simp add: A'_def ans start_Ok loop_feed_def discovery_init_def broadcast_def Let_def)
qed

text \<open>
  C10. Discovery end to end: a node asks for presence; another node that receives the encoded request
  answers with its metadata; when the encoded answer reaches the first node and the answering node is
  paired with it, not connected and not yet seen, the first node records it with the announced address and the
  paired secret and tells the application, and nothing else changes in its peer book.
\<close>

theorem presence_exchange:
  fixes A B :: "'t manager" and R :: ring_api and addr_a addr_b :: socket_addr
  assumes "bytes_crate P" and "discovery_ok P (PresenceResponse (m_metadata B))"
    and "newly_seen A (pm_id (m_metadata B))" and "known_peers A (pm_id (m_metadata B)) = Some k"
    and "m_id A \<noteq> pm_id (m_metadata B)"
  defines "request \<equiv> snd (discovery_encode P PresenceRequest [])"
  defines "B' \<equiv> fst (loop_run R (m_id B)
    (loop_feed (start (Ok addr_b) (datagram P request addr_a))) B)"
  defines "answer \<equiv> snd (discovery_encode P (last (discovery_channel B')) [])"
  defines "A' \<equiv> fst (loop_run R (m_id A) (loop_feed (start (Ok addr_a)
    (Broadcast (Some PresenceRequest) (Ok ()) # datagram P answer addr_b))) A)"
  shows "discovery_channel B' = discovery_channel B @ [PresenceResponse (m_metadata B)] \<and>
    book_of A' = book_see (m_metadata B) (book_of A) \<and>
    discovered_peers A' (pm_id (m_metadata B)) = Some \<lparr>pc_id = pm_id (m_metadata B),
      pc_metadata = m_metadata B, pc_addrs = {pm_addr (m_metadata B)}, pc_auth = pc_auth k\<rparr> \<and>
    app_channel A' = app_channel A @ [PeerDiscovered (m_metadata B)]"
proof -
  have B': "B' = B\<lparr>discovery_channel := discovery_channel B @ [PresenceResponse (m_metadata B)]\<rparr>"
    unfolding B'_def request_def by (rule exchange_managers(1) [OF assms(1,2,5)])
  have A': "A' = snd (exec (handle_peer_discovered (m_metadata B)) A)"
    unfolding A'_def answer_def B'_def request_def by (rule exchange_managers(2) [OF assms(1,2,5)])
  have "book_of A' = book_see (m_metadata B) (book_of A)"
    unfolding A' by (rule book_of_see)
  with assms(3,4) show ?thesis
    by (simp add: B' A' exec_handle_peer_discovered found_candidate_def)
qed

definition other_manager :: "totp_state manager" where
  "other_manager = test_manager\<lparr>m_id := test_id, m_metadata := test_metadata\<rparr>"

definition test_platform :: platform where
  "test_platform = list_platform True (\<lambda>_. False)"

theorem presence_exchange_witness:
  "app_channel (fst (loop_run reference_ring (m_id test_manager) (loop_feed (start (Ok (V4 LOCALHOST 5))
     (Broadcast (Some PresenceRequest) (Ok ()) #
      datagram test_platform (snd (discovery_encode test_platform (last (discovery_channel
        (fst (loop_run reference_ring (m_id other_manager) (loop_feed (start (Ok (V4 LOCALHOST 6))
          (datagram test_platform (snd (discovery_encode test_platform PresenceRequest [])) (V4 LOCALHOST 5))))
          other_manager)))) [])) (V4 LOCALHOST 6)))) test_manager)) =
   [PeerDiscovered test_metadata]"
proof -
  have ids: "m_metadata other_manager = test_metadata" "app_channel test_manager = []"
    by (simp_all add: other_manager_def test_manager_def)
  have seen: "newly_seen test_manager (pm_id (m_metadata other_manager))"
    and known: "known_peers test_manager (pm_id (m_metadata other_manager)) = Some test_candidate"
    and neq: "m_id test_manager \<noteq> pm_id (m_metadata other_manager)"
    using test_ids by (simp_all add: ids(1) test_manager_def newly_seen_def)
  have P: "bytes_crate test_platform"
    unfolding test_platform_def by (rule list_buffers.bytes_crate_axioms)
  have ok: "discovery_ok test_platform (PresenceResponse (m_metadata other_manager))"
    unfolding ids by (rule test_response_ok)
  show ?thesis
    using presence_exchange [OF P ok seen known neq, where R = reference_ring and addr_a = "V4 LOCALHOST 5"
        and addr_b = "V4 LOCALHOST 6", THEN conjunct2, THEN conjunct2, THEN conjunct2]
    by (simp only: ids append_Nil)
qed

subsection \<open>From two started managers to a connection and its end\<close>

lemma manager_new_fields:
  assumes "manager_new os bind local_addr config = Ok m"
  shows "m_id m = cfg_id config" "pm_id (m_metadata m) = cfg_id config" "known_peers m = Map.empty"
    "discovered_peers m = Map.empty" "connected_peers m = {}" "discovery_channel m = []" "app_channel m = []"
  using assms unfolding manager_new_Ok_iff by auto

text \<open>
  C7. The life of a pairing, as the crate's integration test walks through it. Two managers are
  started and each is given the other as a known peer with the same secret. The first asks for
  presence, the second answers, and the encoded answer reaches the first, which now has the second
  as discovered and has told its application. The first then calls \<open>connect_to_peer\<close> and the second's event
  loop accepts, within one window of fifteen seconds: whatever the order of steps and the pieces the
  bytes come in, this ends within 2000 steps, with each in the other's connected set and the second's
  application told. When the transport task of the client later ends, for whatever reason, the
  host is no longer connected and the application has been told exactly that it was discovered and
  that it is gone.
\<close>

theorem paired_devices_connect:
  fixes A\<^sub>0 B\<^sub>0 :: "'t manager" and R :: ring_api and addr_a addr_b :: socket_addr and c c' :: conn
    and config_a config_b :: p2p_config and auth :: "'t pairing_authenticator"
  assumes crates: "bytes_crate P" "ring_crate R" "totp_crate T"
    and started: "manager_new os bind_a local_a config_a = Ok A\<^sub>0" "manager_new os bind_b local_b config_b = Ok B\<^sub>0"
    and ids: "peer_id_ok P (cfg_id config_a)" "peer_id_ok P (cfg_id config_b)" "cfg_id config_a \<noteq> cfg_id config_b"
    and fits: "discovery_ok P (PresenceResponse (m_metadata B\<^sub>0))"
    and secret: "authenticator_new T secret = Ok auth" "generate T auth (15 * w) = Ok key"
    and net: "\<And>a. order {a} = [a]" "tcp (pm_addr (m_metadata B\<^sub>0)) = Some c"
  defines "A\<^sub>1 \<equiv> snd (exec request_presence (snd (exec (add_known_peer (candidate_new (get_metadata B\<^sub>0) auth)) A\<^sub>0)))"
  defines "B\<^sub>1 \<equiv> snd (exec (add_known_peer (candidate_new (get_metadata A\<^sub>0) auth)) B\<^sub>0)"
  defines "B\<^sub>2 \<equiv> fst (loop_run R (m_id B\<^sub>1) (loop_feed (start (Ok addr_b)
    (datagram P (snd (discovery_encode P (last (discovery_channel A\<^sub>1)) [])) addr_a))) B\<^sub>1)"
  defines "A\<^sub>2 \<equiv> fst (loop_run R (m_id A\<^sub>1) (loop_feed (start (Ok addr_a)
    (Broadcast (Some (last (discovery_channel A\<^sub>1))) (Ok ()) #
     datagram P (snd (discovery_encode P (last (discovery_channel B\<^sub>2)) [])) addr_b))) A\<^sub>1)"
  defines "client_id \<equiv> cfg_id config_a" and "host_id \<equiv> cfg_id config_b"
  assumes run: "session_run T P w n
    (session_init (connect_to_peer R order client_id host_id) A\<^sub>2 tcp (accept_task R host_id c') B\<^sub>2 tcp') s"
  shows "app_channel A\<^sub>2 = [PeerDiscovered (m_metadata B\<^sub>0)] \<and> host_id \<in> dom (discovered_peers A\<^sub>2) \<and>
    n \<le> 2000 \<and> ((\<nexists>s'. session_step T P w s s') \<longrightarrow>
      e_prog (client s) = Done (Ok \<lparr>p_id = host_id, p_conn_type = Client, p_metadata = m_metadata B\<^sub>0, p_conn = c\<rparr>) \<and>
      connected_peers (e_mgr (client s)) = {host_id} \<and> connected_peers (e_mgr (host s)) = {client_id} \<and>
      app_channel (e_mgr (host s)) = [PeerConnected
        \<lparr>p_id = client_id, p_conn_type = Server, p_metadata = m_metadata A\<^sub>0, p_conn = c'\<rparr>] \<and>
      (\<forall>copy turns pump r. fst (handler_loop copy turns pump) = Ended r \<longrightarrow>
        connected_peers (snd (handler copy host_id turns pump (e_mgr (client s)))) = {} \<and>
        app_channel (snd (handler copy host_id turns pump (e_mgr (client s)))) =
          [PeerDiscovered (m_metadata B\<^sub>0), PeerDisconnected host_id]))"
proof -
  note fields = manager_new_fields [OF started(1), folded client_id_def] manager_new_fields [OF started(2), folded host_id_def]
  let ?a = "candidate_new (m_metadata A\<^sub>0) auth" and ?b = "candidate_new (m_metadata B\<^sub>0) auth"
  have A\<^sub>1: "A\<^sub>1 = A\<^sub>0\<lparr>known_peers := [host_id \<mapsto> ?b], discovery_channel := [PresenceRequest]\<rparr>"
    by (simp add: A\<^sub>1_def exec_methods get_metadata_def candidate_new_def fields)
  have B\<^sub>1: "B\<^sub>1 = B\<^sub>0\<lparr>known_peers := [client_id \<mapsto> ?a]\<rparr>"
    by (simp add: B\<^sub>1_def exec_methods get_metadata_def candidate_new_def fields)
  have asks: "last (discovery_channel A\<^sub>1) = PresenceRequest" by (simp add: A\<^sub>1)
  have ok: "discovery_ok P (PresenceResponse (m_metadata B\<^sub>1))" "m_id A\<^sub>1 \<noteq> pm_id (m_metadata B\<^sub>1)"
    using fits ids(3) by (simp_all add: A\<^sub>1 B\<^sub>1 fields client_id_def host_id_def)
  have B\<^sub>2: "B\<^sub>2 = B\<^sub>1\<lparr>discovery_channel := discovery_channel B\<^sub>1 @ [PresenceResponse (m_metadata B\<^sub>1)]\<rparr>"
    unfolding B\<^sub>2_def asks by (rule exchange_managers(1) [OF crates(1) ok])
  have A\<^sub>2: "A\<^sub>2 = snd (exec (handle_peer_discovered (m_metadata B\<^sub>1)) A\<^sub>1)"
    unfolding A\<^sub>2_def B\<^sub>2_def asks by (rule exchange_managers(2) [OF crates(1) ok])
  let ?cand = "found_candidate A\<^sub>1 (m_metadata B\<^sub>0)"
  have cand: "pc_auth ?cand = auth" "pc_id ?cand = host_id" "pc_addrs ?cand = {pm_addr (m_metadata B\<^sub>0)}"
    "connected_as Client c ?cand = \<lparr>p_id = host_id, p_conn_type = Client, p_metadata = m_metadata B\<^sub>0, p_conn = c\<rparr>"
    by (simp_all add: found_candidate_def A\<^sub>1 fields candidate_new_def connected_as_def)
  have book: "discovered_peers A\<^sub>2 = [host_id \<mapsto> ?cand]" "connected_peers A\<^sub>2 = {}"
    "app_channel A\<^sub>2 = [PeerDiscovered (m_metadata B\<^sub>0)]"
    "discovered_peers B\<^sub>2 = Map.empty" "known_peers B\<^sub>2 = [client_id \<mapsto> ?a]" "connected_peers B\<^sub>2 = {}" "app_channel B\<^sub>2 = []"
    by (simp_all add: A\<^sub>2 B\<^sub>2 B\<^sub>1 exec_handle_peer_discovered newly_seen_def A\<^sub>1 fields)
  have "paired_connection P R T secret auth w key client_id host_id c ?cand ?a A\<^sub>2 B\<^sub>2 tcp order [] []
      (pm_addr (m_metadata B\<^sub>0))"
    using crates secret ids net cand book fields
    by (simp add: paired_connection_def paired_connection_axioms_def paired_session_def paired_session_axioms_def
        client_id_def host_id_def candidate_new_def)
  from paired_connection.connection_completes [OF this run] show ?thesis
    using cand book
    by (auto simp: connected_host_def manager_ops connected_as_def candidate_new_def fields handler_def exec_methods
        split: prod.split)
qed

text \<open>Two concrete devices, on one machine.\<close>

definition laptop :: p2p_config where
  "laptop = \<lparr>cfg_id = peer_id_default, cfg_device = Windows10Desktop, cfg_name = lit ''laptop'',
     cfg_multicast = V4 DISCOVERY_MULTICAST 50692, cfg_p2p_addr = V4 LOCALHOST 0\<rparr>"

definition phone :: p2p_config where
  "phone = laptop\<lparr>cfg_id := test_id, cfg_device := AppleiPhone, cfg_name := lit ''test phone''\<rparr>"

definition started_at :: "16 word \<Rightarrow> p2p_config \<Rightarrow> (totp_state manager, init_error) outcome" where
  "started_at p = manager_new (\<lambda>_. Ok ()) (\<lambda>_. Ok 0) (\<lambda>_. Ok (V4 LOCALHOST p))"

theorem paired_devices_connect_witness:
  "\<exists>A B A' B' n s. started_at 5000 laptop = Ok A \<and> started_at 5001 phone = Ok B \<and>
     session_run reference_totp test_platform 4 n (session_init
       (connect_to_peer reference_ring (\<lambda>S. [the_elem S]) peer_id_default test_id) A' [V4 LOCALHOST 5001 \<mapsto> 1]
       (accept_task reference_ring test_id 2) B' Map.empty) s \<and>
     app_channel A' = [PeerDiscovered (m_metadata B)] \<and> (\<nexists>s'. session_step reference_totp test_platform 4 s s') \<and>
     connected_peers (e_mgr (client s)) = {test_id} \<and> connected_peers (e_mgr (host s)) = {peer_id_default}"
proof -
  obtain A B :: "totp_state manager" where started: "started_at 5000 laptop = Ok A" "started_at 5001 phone = Ok B"
    and B: "m_metadata B = test_metadata"
    unfolding started_at_def manager_new_Ok_iff
    by (simp add: laptop_def phone_def DISCOVERY_MULTICAST_def test_metadata_def)
  have P: "bytes_crate test_platform"
    unfolding test_platform_def by (rule list_buffers.bytes_crate_axioms)
  have ids: "cfg_id laptop = peer_id_default" "cfg_id phone = test_id" "peer_id_default \<noteq> test_id"
    using test_ids by (simp_all add: laptop_def phone_def)
  have addr: "pm_addr (m_metadata B) = V4 LOCALHOST 5001" by (simp add: B test_metadata_def)
  note connects = paired_devices_connect [OF P reference_ring.ring_crate_axioms reference_totp.totp_crate_axioms
      started [unfolded started_at_def], unfolded ids addr, OF peer_id_default_ok test_id_ok ids(3) _
      test_session.shared(1) test_session.code, where order = "\<lambda>S. [the_elem S]" and tcp = "[V4 LOCALHOST 5001 \<mapsto> 1]"
      and c' = 2 and tcp' = Map.empty and c = 1 and w = 4 and addr_a = "V4 LOCALHOST 5" and addr_b = "V4 LOCALHOST 6"]
  have ok: "discovery_ok test_platform (PresenceResponse (m_metadata B))"
    unfolding B by (rule test_response_ok)
  have net: "[the_elem {a}] = [a]" "[V4 LOCALHOST 5001 \<mapsto> 1 :: conn] (V4 LOCALHOST 5001) = Some 1" for a :: socket_addr
    by simp_all
  note connects = connects [OF ok net]
  let ?run = "\<lambda>A' B' n s. session_run reference_totp test_platform 4 n (session_init
    (connect_to_peer reference_ring (\<lambda>S. [the_elem S]) peer_id_default test_id) A' [V4 LOCALHOST 5001 \<mapsto> 1]
    (accept_task reference_ring test_id 2) B' Map.empty) s"
  obtain A' B' where told: "\<And>n s. ?run A' B' n s \<Longrightarrow> app_channel A' = [PeerDiscovered (m_metadata B)]"
    and bound: "\<And>n s. ?run A' B' n s \<Longrightarrow> n \<le> 2000"
    and ends: "\<And>n s. ?run A' B' n s \<Longrightarrow> \<nexists>s'. session_step reference_totp test_platform 4 s s' \<Longrightarrow>
      connected_peers (e_mgr (client s)) = {test_id} \<and> connected_peers (e_mgr (host s)) = {peer_id_default}"
    by (rule that, erule connects [THEN conjunct1], erule connects [THEN conjunct2, THEN conjunct2, THEN conjunct1],
      drule connects [THEN conjunct2, THEN conjunct2, THEN conjunct2], simp)
  obtain n s where "?run A' B' n s" "\<nexists>s'. session_step reference_totp test_platform 4 s s'"
    using longest_run [of reference_totp test_platform 4 _ 2000] bound by blast
  with started told ends show ?thesis by blast
qed

end
